theory Spec2Isabelle
  imports
    Complex_Main
    "HOL-Library.Char_ord"
    "HOL-Library.List_Lexorder"
    "HOL-Library.Product_Lexorder"
begin


section \<open>Data model (app/models/stop.py, app/models/route.py, app/config.py)\<close>

text \<open>
  Python floats are idealised as \<open>real\<close>; Python ints are \<open>int\<close>. A time that may be
  \<open>float('inf')\<close> is an \<open>xint\<close>, a comparison scalar that may be infinite is an
  \<open>xreal\<close>. A dict is an association list in insertion order, read with \<open>map_of\<close>.
  A GeoJSON coordinate list \<open>[lon, lat]\<close> is the pair \<open>(lon, lat)\<close>.
\<close>

datatype error = KeyError | ValidationError | OverflowError | GeodesicError | DatabaseError

datatype xint = Fin int | PosInf

datatype xreal = FinR real | InfR

record connection =
  to_stop_id :: string
  conn_route_id :: string
  conn_time :: int
  conn_cost :: real
  sequence :: int

record stop =
  stop_id :: string
  stop_name :: string
  location :: "real \<times> real"
  connections :: "connection list"

record route_doc =
  doc_route_id :: string
  route_long_name :: "string option"
  doc_route_type :: "string option"
  doc_stops :: "string list"

record walking_direction =
  instruction :: string
  distance_meters :: int
  duration_seconds :: int

record route_segment =
  route_id :: string
  route_name :: string
  route_type :: string
  from_stop :: string
  to_stop :: string
  from_stop_name :: string
  to_stop_name :: string
  seg_time :: int
  seg_cost :: real
  sequence_start :: int
  sequence_end :: int
  boarding_time :: int
  transfer_time :: int
  walking_directions :: "walking_direction list"

record optimized_route =
  path :: "string list"
  segments :: "route_segment list"
  total_time :: xint
  total_cost :: real
  transfers :: int
  walking_time :: xint
  total_distance_km :: real
  start_walking_time :: xint
  end_walking_time :: xint
  route_summary :: string
  alternative_routes_count :: int
  co2_saved_kg :: "real option"
  calories_burned :: "int option"

type_synonym stops_cache = "(string \<times> stop) list"

type_synonym routes_cache = "(string \<times> route_doc) list"

text \<open>
  \<open>geopy.distance.geodesic(a, b).kilometers\<close> is a library call: it is a parameter of
  every function that uses it. A point is a pair of optional floats, because
  \<open>get_stop_coordinates\<close> hands \<open>(None, None)\<close> to it for an unknown stop; the call
  may raise.
\<close>

type_synonym point = "real option \<times> real option"

type_synonym geodesic = "point \<Rightarrow> point \<Rightarrow> error + real"

definition WALKING_SPEED_KMH :: real where
  "WALKING_SPEED_KMH = 5"

definition MAX_WALKING_DISTANCE_KM :: real where
  "MAX_WALKING_DISTANCE_KM = 1 / 2"

definition MAX_SEARCH_RADIUS_KM :: real where
  "MAX_SEARCH_RADIUS_KM = 50"

definition BUS_BOARDING_TIME :: int where
  "BUS_BOARDING_TIME = 2"

definition METRO_BOARDING_TIME :: int where
  "METRO_BOARDING_TIME = 1"

definition TRANSFER_WALKING_TIME :: int where
  "TRANSFER_WALKING_TIME = 3"

subsection \<open>Python helpers\<close>

text \<open>\<open>int(x)\<close> on a float truncates toward zero.\<close>

definition py_int :: "real \<Rightarrow> int" where
  "py_int x = (if 0 \<le> x then \<lfloor>x\<rfloor> else \<lceil>x\<rceil>)"

fun xadd :: "xint \<Rightarrow> xint \<Rightarrow> xint" where
  "xadd (Fin a) (Fin b) = Fin (a + b)"
| "xadd _ _ = PosInf"

fun xint_pos :: "xint \<Rightarrow> bool" where
  "xint_pos (Fin a) = (0 < a)"
| "xint_pos PosInf = True"

fun xreal_of :: "xint \<Rightarrow> xreal" where
  "xreal_of (Fin a) = FinR (of_int a)"
| "xreal_of PosInf = InfR"

fun xless :: "xreal \<Rightarrow> xreal \<Rightarrow> bool" where
  "xless (FinR a) (FinR b) = (a < b)"
| "xless (FinR a) InfR = True"
| "xless InfR _ = False"

fun xmin :: "xreal \<Rightarrow> xreal \<Rightarrow> xreal" where
  "xmin a b = (if xless b a then b else a)"

text \<open>\<open>sub in s\<close> on strings: \<open>sub\<close> occurs in \<open>s\<close> as a contiguous block.\<close>

fun starts_with :: "string \<Rightarrow> string \<Rightarrow> bool" where
  "starts_with [] s = True"
| "starts_with (c # cs) [] = False"
| "starts_with (c # cs) (d # ds) = (c = d \<and> starts_with cs ds)"

fun py_in :: "string \<Rightarrow> string \<Rightarrow> bool" where
  "py_in sub [] = (sub = [])"
| "py_in sub (d # ds) = (starts_with sub (d # ds) \<or> py_in sub ds)"

text \<open>\<open>str(n)\<close> for an int, as the f-strings of the summaries print it.\<close>

fun str_nat :: "nat \<Rightarrow> string" where
  "str_nat n = (if n < 10 then [char_of (48 + n)]
                else str_nat (n div 10) @ [char_of (48 + n mod 10)])"

definition str_int :: "int \<Rightarrow> string" where
  "str_int i = (if i < 0 then CHR ''-'' # str_nat (nat (- i)) else str_nat (nat i))"

fun str_xint :: "xint \<Rightarrow> string" where
  "str_xint (Fin i) = str_int i"
| "str_xint PosInf = ''inf''"

text \<open>\<open>xs.index(x)\<close> where \<open>x\<close> is known to occur.\<close>

fun index_of :: "'a \<Rightarrow> 'a list \<Rightarrow> nat" where
  "index_of x [] = 0"
| "index_of x (y # ys) = (if x = y then 0 else Suc (index_of x ys))"

text \<open>\<open>xs[:n]\<close>: a negative \<open>n\<close> counts from the end.\<close>

definition py_take :: "int \<Rightarrow> 'a list \<Rightarrow> 'a list" where
  "py_take n xs = (if n < 0 then take (nat (int (length xs) + n)) xs else take (nat n) xs)"

section \<open>Graph store (app/services/graph_service.py)\<close>

definition get_stop_coordinates :: "stops_cache \<Rightarrow> string \<Rightarrow> point" where
  "get_stop_coordinates sc sid =
     (case map_of sc sid of
        Some s \<Rightarrow> (Some (snd (location s)), Some (fst (location s)))
      | None \<Rightarrow> (None, None))"

text \<open>
  \<open>calculate_walking_time_from_coords\<close>. The guard \<open>if not stop_coords\<close> tests a
  2-tuple, which is never empty, so its branch \<open>return float('inf'), 0.0\<close> is written
  with the condition it has: the truth value of the tuple.
\<close>

definition tuple2_truthy :: "point \<Rightarrow> bool" where
  "tuple2_truthy p = True"

definition calculate_walking_time_from_coords ::
  "geodesic \<Rightarrow> stops_cache \<Rightarrow> real \<Rightarrow> real \<Rightarrow> string \<Rightarrow> error + (xint \<times> real)" where
  "calculate_walking_time_from_coords geo sc lat lon sid =
     (let stop_coords = get_stop_coordinates sc sid in
      if \<not> tuple2_truthy stop_coords then Inr (PosInf, 0)
      else case geo (Some lat, Some lon) stop_coords of
             Inl e \<Rightarrow> Inl e
           | Inr distance_km \<Rightarrow>
               if distance_km > MAX_WALKING_DISTANCE_KM then Inr (PosInf, distance_km)
               else Inr (Fin (py_int ((distance_km / WALKING_SPEED_KMH) * 60)), distance_km))"

text \<open>\<open>validate_coordinates\<close>: the loop keeps the minimum distance, starting at infinity.\<close>

fun min_distance_loop :: "geodesic \<Rightarrow> real \<Rightarrow> real \<Rightarrow> (string \<times> stop) list \<Rightarrow> xreal \<Rightarrow> error + xreal" where
  "min_distance_loop geo lat lon [] m = Inr m"
| "min_distance_loop geo lat lon ((k, s) # rest) m =
     (case geo (Some lat, Some lon) (Some (snd (location s)), Some (fst (location s))) of
        Inl e \<Rightarrow> Inl e
      | Inr d \<Rightarrow> min_distance_loop geo lat lon rest (xmin m (FinR d)))"

definition validate_coordinates :: "geodesic \<Rightarrow> stops_cache \<Rightarrow> real \<Rightarrow> real \<Rightarrow> error + bool" where
  "validate_coordinates geo sc lat lon =
     (if \<not> (-90 \<le> lat \<and> lat \<le> 90) \<or> \<not> (-180 \<le> lon \<and> lon \<le> 180) then Inr False
      else if sc \<noteq> [] then
        (case min_distance_loop geo lat lon sc InfR of
           Inl e \<Rightarrow> Inl e
         | Inr m \<Rightarrow> Inr (\<not> xless (FinR MAX_SEARCH_RADIUS_KM) m))
      else Inr True)"

text \<open>
  \<open>find_nearest_stops\<close>: the loop collects \<open>(distance, stop_id, name)\<close> triples,
  \<open>distances.sort()\<close> sorts the triples (tuples compare lexicographically), and the
  slice \<open>distances[:limit]\<close> is projected to \<open>(stop_id, distance)\<close>.
\<close>

fun nearest_loop ::
  "geodesic \<Rightarrow> real \<Rightarrow> real \<Rightarrow> (string \<times> stop) list \<Rightarrow> (real \<times> string \<times> string) list \<Rightarrow>
   error + (real \<times> string \<times> string) list" where
  "nearest_loop geo lat lon [] distances = Inr distances"
| "nearest_loop geo lat lon ((k, s) # rest) distances =
     (case geo (Some lat, Some lon) (Some (snd (location s)), Some (fst (location s))) of
        Inl e \<Rightarrow> Inl e
      | Inr d \<Rightarrow>
          nearest_loop geo lat lon rest
            (if d \<le> MAX_WALKING_DISTANCE_KM then distances @ [(d, k, stop_name s)] else distances))"

definition find_nearest_stops ::
  "geodesic \<Rightarrow> stops_cache \<Rightarrow> real \<Rightarrow> real \<Rightarrow> int \<Rightarrow> error + (string \<times> real) list" where
  "find_nearest_stops geo sc lat lon limit =
     (case nearest_loop geo lat lon sc [] of
        Inl e \<Rightarrow> Inl e
      | Inr distances \<Rightarrow> Inr (map (\<lambda>(d, k, n). (k, d)) (py_take limit (sort distances))))"

definition get_mode_specific_penalties :: "routes_cache \<Rightarrow> string \<Rightarrow> int \<times> int" where
  "get_mode_specific_penalties rc rid =
     (let rtype = (case map_of rc rid of
                     None \<Rightarrow> ''bus''
                   | Some info \<Rightarrow> (case doc_route_type info of None \<Rightarrow> ''bus'' | Some t \<Rightarrow> t))
      in if rtype = ''metro'' then (METRO_BOARDING_TIME, TRANSFER_WALKING_TIME)
         else (BUS_BOARDING_TIME, TRANSFER_WALKING_TIME))"

section \<open>Pathfinder: the general search (\<open>_dijkstra_pathfinding\<close>)\<close>

text \<open>
  A queue entry is the tuple \<open>(cost, counter, current_stop, path, segments, transfers,
  total_time, total_cost)\<close>. The heap is a list; \<open>heapq.heappop\<close> removes the entry
  that is least by \<open>(cost, counter)\<close>, and the counter makes that entry unique.
\<close>

record qitem =
  q_prio :: real
  q_count :: nat
  q_stop :: string
  q_path :: "string list"
  q_segments :: "route_segment list"
  q_transfers :: int
  q_time :: int
  q_cost :: real

record search_state =
  pq :: "qitem list"
  counter :: nat
  best_costs :: "string \<rightharpoonup> real"

definition item_less :: "qitem \<Rightarrow> qitem \<Rightarrow> bool" where
  "item_less a b = (q_prio a < q_prio b \<or> (q_prio a = q_prio b \<and> q_count a < q_count b))"

fun least_item :: "qitem \<Rightarrow> qitem list \<Rightarrow> qitem" where
  "least_item m [] = m"
| "least_item m (x # xs) = least_item (if item_less x m then x else m) xs"

definition heappop :: "qitem list \<Rightarrow> qitem \<times> qitem list" where
  "heappop q = (let m = least_item (hd q) (tl q) in (m, remove1 m q))"

definition boarding_of :: "routes_cache \<Rightarrow> route_segment list \<Rightarrow> connection \<Rightarrow> int \<times> bool" where
  "boarding_of rc segs c =
     (if length segs = 0 then (fst (get_mode_specific_penalties rc (conn_route_id c)), False)
      else if route_id (last segs) \<noteq> conn_route_id c then
        (fst (get_mode_specific_penalties rc (conn_route_id c))
           + snd (get_mode_specific_penalties rc (conn_route_id c)), True)
      else (0, False))"

definition priority_of :: "string \<Rightarrow> int \<Rightarrow> real \<Rightarrow> int \<Rightarrow> real" where
  "priority_of opt new_time new_cost new_transfers =
     (if opt = ''time'' then of_int new_time
      else if opt = ''cost'' then new_cost
      else of_int (new_transfers * 100 + new_time))"

text \<open>\<open>route_info.get("route_long_name", f"Route {route_id}")\<close> and
  \<open>route_info.get("route_type", default)\<close> on a \<open>routes_cache.get(route_id, {})\<close>.\<close>

definition route_name_of :: "route_doc option \<Rightarrow> string \<Rightarrow> string" where
  "route_name_of info rid =
     (case info of
        None \<Rightarrow> ''Route '' @ rid
      | Some d \<Rightarrow> (case route_long_name d of None \<Rightarrow> ''Route '' @ rid | Some n \<Rightarrow> n))"

definition route_type_of :: "route_doc option \<Rightarrow> string \<Rightarrow> string" where
  "route_type_of info dflt =
     (case info of
        None \<Rightarrow> dflt
      | Some d \<Rightarrow> (case doc_route_type d of None \<Rightarrow> dflt | Some t \<Rightarrow> t))"

text \<open>
  One iteration of the loop over the connections of the current stop. The lookup
  \<open>self.stops_cache[next_stop].name\<close> raises KeyError for a stop that is not cached.
\<close>

definition relax ::
  "stops_cache \<Rightarrow> routes_cache \<Rightarrow> string \<Rightarrow> qitem \<Rightarrow> connection \<Rightarrow> search_state \<Rightarrow> error + search_state" where
  "relax sc rc opt cur c st =
     (let next_stop = to_stop_id c in
      if next_stop \<in> set (q_path cur) then Inr st
      else
        let boarding_penalty = fst (boarding_of rc (q_segments cur) c);
            is_transfer = snd (boarding_of rc (q_segments cur) c);
            new_time = q_time cur + conn_time c + boarding_penalty;
            new_cost = q_cost cur + conn_cost c;
            new_transfers = q_transfers cur + (if is_transfer then 1 else 0);
            priority = priority_of opt new_time new_cost new_transfers
        in case map_of sc (q_stop cur) of
             None \<Rightarrow> Inl KeyError
           | Some cur_obj \<Rightarrow>
               (case map_of sc next_stop of
                  None \<Rightarrow> Inl KeyError
                | Some next_obj \<Rightarrow>
                    let segment = \<lparr> route_id = conn_route_id c,
                          route_name = route_name_of (map_of rc (conn_route_id c)) (conn_route_id c),
                          route_type = route_type_of (map_of rc (conn_route_id c)) ''bus'',
                          from_stop = q_stop cur,
                          to_stop = next_stop,
                          from_stop_name = stop_name cur_obj,
                          to_stop_name = stop_name next_obj,
                          seg_time = conn_time c,
                          seg_cost = conn_cost c,
                          sequence_start = sequence c,
                          sequence_end = sequence c + 1,
                          boarding_time = boarding_penalty,
                          transfer_time = 0,
                          walking_directions = [] \<rparr>
                    in if (case best_costs st next_stop of None \<Rightarrow> True | Some b \<Rightarrow> priority < b)
                       then Inr (st\<lparr> best_costs := (best_costs st)(next_stop \<mapsto> priority),
                                     pq := pq st @ [\<lparr> q_prio = priority, q_count = counter st,
                                              q_stop = next_stop, q_path = q_path cur @ [next_stop],
                                              q_segments = q_segments cur @ [segment],
                                              q_transfers = new_transfers, q_time = new_time,
                                              q_cost = new_cost \<rparr>],
                                     counter := Suc (counter st) \<rparr>)
                       else Inr st))"

fun explore ::
  "stops_cache \<Rightarrow> routes_cache \<Rightarrow> string \<Rightarrow> qitem \<Rightarrow> connection list \<Rightarrow> search_state \<Rightarrow> error + search_state" where
  "explore sc rc opt cur [] st = Inr st"
| "explore sc rc opt cur (c # cs) st =
     (case relax sc rc opt cur c st of
        Inl e \<Rightarrow> Inl e
      | Inr st' \<Rightarrow> explore sc rc opt cur cs st')"

definition found_route :: "qitem \<Rightarrow> optimized_route" where
  "found_route cur =
     \<lparr> path = q_path cur,
       segments = q_segments cur,
       total_time = Fin (q_time cur),
       total_cost = q_cost cur,
       transfers = q_transfers cur,
       walking_time = Fin 0,
       total_distance_km = 0,
       start_walking_time = Fin 0,
       end_walking_time = Fin 0,
       route_summary = ''Route with '' @ str_nat (length (q_segments cur)) @ '' segments, ''
                        @ str_int (q_transfers cur) @ '' transfers'',
       alternative_routes_count = 0,
       co2_saved_kg = Some (of_int (q_time cur) * (1 / 10)),
       calories_burned = Some 0 \<rparr>"

definition stale :: "search_state \<Rightarrow> qitem \<Rightarrow> bool" where
  "stale st cur = (case best_costs st (q_stop cur) of None \<Rightarrow> False | Some b \<Rightarrow> q_prio cur > b)"

text \<open>
  The \<open>while pq\<close> loop ends: an entry whose path misses \<open>k\<close> of the connection
  targets weighs \<open>B ^ k\<close>, where \<open>B\<close> exceeds the number of connections of any stop.
  A pop removes one entry of weight \<open>B ^ k\<close> and pushes fewer than \<open>B\<close> entries of weight
  \<open>B ^ (k - 1)\<close>.
\<close>

definition total_connections :: "stops_cache \<Rightarrow> nat" where
  "total_connections sc = sum_list (map (\<lambda>kv. length (connections (snd kv))) sc)"

definition targets :: "stops_cache \<Rightarrow> string set" where
  "targets sc = set (concat (map (\<lambda>kv. map to_stop_id (connections (snd kv))) sc))"

definition item_weight :: "stops_cache \<Rightarrow> qitem \<Rightarrow> nat" where
  "item_weight sc it = Suc (total_connections sc) ^ card (targets sc - set (q_path it))"

definition queue_weight :: "stops_cache \<Rightarrow> qitem list \<Rightarrow> nat" where
  "queue_weight sc q = sum_list (map (item_weight sc) q)"

lemma least_item_mem: "least_item m xs \<in> set (m # xs)"
  by (induction xs arbitrary: m) auto

lemma heappop_mem: "q \<noteq> [] \<Longrightarrow> fst (heappop q) \<in> set q"
  using least_item_mem [of "hd q" "tl q"] by (cases q) (auto simp: heappop_def Let_def)

lemma heappop_weight:
  assumes "q \<noteq> []"
  shows "queue_weight sc q = item_weight sc (fst (heappop q)) + queue_weight sc (snd (heappop q))"
proof -
  have "fst (heappop q) \<in> set q" using assms by (rule heappop_mem)
  then show ?thesis
    unfolding queue_weight_def
    by (simp add: heappop_def Let_def sum_list_map_remove1)
qed

lemma item_weight_pos: "0 < item_weight sc it"
  by (simp add: item_weight_def)

lemma relax_weight:
  assumes "relax sc rc opt cur c st = Inr st'" and "to_stop_id c \<in> targets sc"
  shows "queue_weight sc (pq st') \<le> queue_weight sc (pq st)
           + (if to_stop_id c \<in> set (q_path cur) then 0
              else Suc (total_connections sc) ^ (card (targets sc - set (q_path cur)) - 1))"
proof (cases "to_stop_id c \<in> set (q_path cur)")
  case True
  with assms show ?thesis by (simp add: relax_def)
next
  case False
  have fin: "finite (targets sc)" by (simp add: targets_def)
  have "targets sc - insert (to_stop_id c) (set (q_path cur))
      = (targets sc - set (q_path cur)) - {to_stop_id c}"
    by auto
  moreover have "to_stop_id c \<in> targets sc - set (q_path cur)" using False assms(2) by simp
  ultimately have card_eq: "card (targets sc - insert (to_stop_id c) (set (q_path cur)))
      = card (targets sc - set (q_path cur)) - 1"
    using fin by (simp add: card_Diff_singleton)
  from assms(1) False show ?thesis
    by (auto simp: relax_def Let_def queue_weight_def item_weight_def card_eq
             split: option.splits if_splits)
qed

lemma relax_skip:
  "to_stop_id c \<in> set (q_path cur) \<Longrightarrow> relax sc rc opt cur c st = Inr st"
  by (simp add: relax_def)

lemma explore_weight:
  assumes "explore sc rc opt cur cs st = Inr st'"
    and "\<forall>c \<in> set cs. to_stop_id c \<in> targets sc"
  shows "queue_weight sc (pq st') \<le> queue_weight sc (pq st)
           + length cs * Suc (total_connections sc) ^ (card (targets sc - set (q_path cur)) - 1)"
  using assms
proof (induction cs arbitrary: st)
  case Nil
  then show ?case by simp
next
  case (Cons c cs)
  from Cons.prems(1) obtain st1 where r: "relax sc rc opt cur c st = Inr st1"
    and e: "explore sc rc opt cur cs st1 = Inr st'"
    by (auto split: sum.splits)
  have "queue_weight sc (pq st1) \<le> queue_weight sc (pq st)
           + Suc (total_connections sc) ^ (card (targets sc - set (q_path cur)) - 1)"
    using relax_weight [OF r] Cons.prems(2) by (auto split: if_splits)
  moreover have "queue_weight sc (pq st') \<le> queue_weight sc (pq st1)
           + length cs * Suc (total_connections sc) ^ (card (targets sc - set (q_path cur)) - 1)"
    using Cons.IH [OF e] Cons.prems(2) by simp
  ultimately show ?case by simp
qed

lemma explore_all_in_path:
  assumes "\<forall>c \<in> set cs. to_stop_id c \<in> set (q_path cur)"
  shows "explore sc rc opt cur cs st = Inr st"
  using assms by (induction cs) (auto simp: relax_skip)

lemma map_of_connections_bound:
  assumes "map_of sc k = Some obj"
  shows "length (connections obj) \<le> total_connections sc"
    and "\<forall>c \<in> set (connections obj). to_stop_id c \<in> targets sc"
proof -
  from assms have mem: "(k, obj) \<in> set sc" by (rule map_of_SomeD)
  then have "length (connections (snd (k, obj))) \<in> set (map (\<lambda>kv. length (connections (snd kv))) sc)"
    by force
  then have "length (connections (snd (k, obj))) \<le> sum_list (map (\<lambda>kv. length (connections (snd kv))) sc)"
    by (rule member_le_sum_list) simp_all
  then show "length (connections obj) \<le> total_connections sc"
    unfolding total_connections_def by simp
  from mem show "\<forall>c \<in> set (connections obj). to_stop_id c \<in> targets sc"
    unfolding targets_def by force
qed

lemma explore_decreases:
  assumes "map_of sc (q_stop cur) = Some obj"
    and "explore sc rc opt cur (connections obj) st = Inr st'"
  shows "queue_weight sc (pq st') < item_weight sc cur + queue_weight sc (pq st)"
proof (cases "card (targets sc - set (q_path cur))")
  case 0
  have "finite (targets sc)" by (simp add: targets_def)
  with 0 have "targets sc \<subseteq> set (q_path cur)" by auto
  with map_of_connections_bound(2) [OF assms(1)]
  have "\<forall>c \<in> set (connections obj). to_stop_id c \<in> set (q_path cur)" by auto
  from explore_all_in_path [OF this] assms(2) have "st' = st" by simp
  then show ?thesis using item_weight_pos [of sc cur] by simp
next
  case (Suc k)
  let ?B = "Suc (total_connections sc)"
  have "queue_weight sc (pq st') \<le> queue_weight sc (pq st) + length (connections obj) * ?B ^ k"
    using explore_weight [OF assms(2) map_of_connections_bound(2) [OF assms(1)]] Suc by simp
  also have "length (connections obj) * ?B ^ k \<le> total_connections sc * ?B ^ k"
    using map_of_connections_bound(1) [OF assms(1)] by simp
  also have "total_connections sc * ?B ^ k < ?B ^ Suc k" by simp
  finally show ?thesis using Suc by (simp add: item_weight_def)
qed

function dijkstra_loop ::
  "stops_cache \<Rightarrow> routes_cache \<Rightarrow> string \<Rightarrow> string \<Rightarrow> int \<Rightarrow> search_state \<Rightarrow> error + optimized_route option" where
  "dijkstra_loop sc rc end_stop opt max_transfers st =
     (if pq st = [] then Inr None
      else case heappop (pq st) of (cur, rest) \<Rightarrow>
        if stale st cur then dijkstra_loop sc rc end_stop opt max_transfers (st\<lparr>pq := rest\<rparr>)
        else if q_stop cur = end_stop then Inr (Some (found_route cur))
        else if q_transfers cur \<ge> max_transfers then
          dijkstra_loop sc rc end_stop opt max_transfers (st\<lparr>pq := rest\<rparr>)
        else (case map_of sc (q_stop cur) of
                None \<Rightarrow> dijkstra_loop sc rc end_stop opt max_transfers (st\<lparr>pq := rest\<rparr>)
              | Some obj \<Rightarrow>
                  (case explore sc rc opt cur (connections obj) (st\<lparr>pq := rest\<rparr>) of
                     Inl e \<Rightarrow> Inl e
                   | Inr st2 \<Rightarrow> dijkstra_loop sc rc end_stop opt max_transfers st2)))"
  by pat_completeness auto
termination
  apply (relation "measure (\<lambda>(sc, rc, end_stop, opt, max_transfers, st). queue_weight sc (pq st))")
  apply simp
  subgoal for sc rc end_stop opt max_transfers st cur rest
    using heappop_weight [of "pq st" sc] item_weight_pos [of sc cur]
    by (cases "heappop (pq st)") auto
  subgoal for sc rc end_stop opt max_transfers st cur rest
    using heappop_weight [of "pq st" sc] item_weight_pos [of sc cur]
    by (cases "heappop (pq st)") auto
  subgoal for sc rc end_stop opt max_transfers st cur rest
    using heappop_weight [of "pq st" sc] item_weight_pos [of sc cur]
    by (cases "heappop (pq st)") auto
  subgoal for sc rc end_stop opt max_transfers st cur rest obj st2
    using heappop_weight [of "pq st" sc] explore_decreases [of sc cur obj rc opt "st\<lparr>pq := rest\<rparr>" st2]
    by (cases "heappop (pq st)") auto
  done

declare dijkstra_loop.simps [simp del]

text \<open>\<open>_dijkstra_pathfinding\<close>: the queue holds the start stop at priority 0.\<close>

definition dijkstra_pathfinding ::
  "stops_cache \<Rightarrow> routes_cache \<Rightarrow> string \<Rightarrow> string \<Rightarrow> string \<Rightarrow> int \<Rightarrow> error + optimized_route option" where
  "dijkstra_pathfinding sc rc start_stop end_stop opt max_transfers =
     dijkstra_loop sc rc end_stop opt max_transfers
       \<lparr> pq = [\<lparr> q_prio = 0, q_count = 0, q_stop = start_stop, q_path = [start_stop],
                 q_segments = [], q_transfers = 0, q_time = 0, q_cost = 0 \<rparr>],
         counter = 1,
         best_costs = [start_stop \<mapsto> 0] \<rparr>"

section \<open>Pathfinder: shortcuts and \<open>_dijkstra_with_transfers\<close>\<close>

definition same_stop_route :: "string \<Rightarrow> optimized_route" where
  "same_stop_route sid =
     \<lparr> path = [sid], segments = [], total_time = Fin 0, total_cost = 0, transfers = 0,
       walking_time = Fin 0, total_distance_km = 0, start_walking_time = Fin 0,
       end_walking_time = Fin 0, route_summary = ''Already at destination'',
       alternative_routes_count = 0, co2_saved_kg = Some 0, calories_burned = Some 0 \<rparr>"

definition create_route_from_connection ::
  "routes_cache \<Rightarrow> connection \<Rightarrow> stop \<Rightarrow> stop \<Rightarrow> optimized_route" where
  "create_route_from_connection rc c start_obj end_obj =
     (let rname = route_name_of (map_of rc (conn_route_id c)) (conn_route_id c);
          rtype = route_type_of (map_of rc (conn_route_id c)) ''metro'';
          segment = \<lparr> route_id = conn_route_id c, route_name = rname, route_type = rtype,
                      from_stop = stop_id start_obj, to_stop = stop_id end_obj,
                      from_stop_name = stop_name start_obj, to_stop_name = stop_name end_obj,
                      seg_time = conn_time c, seg_cost = conn_cost c,
                      sequence_start = 1, sequence_end = 2,
                      boarding_time = fst (get_mode_specific_penalties rc (conn_route_id c)),
                      transfer_time = 0, walking_directions = [] \<rparr>
      in \<lparr> path = [stop_id start_obj, stop_id end_obj], segments = [segment],
           total_time = Fin (conn_time c + boarding_time segment), total_cost = conn_cost c,
           transfers = 0, walking_time = Fin 0, total_distance_km = 0,
           start_walking_time = Fin 0, end_walking_time = Fin 0,
           route_summary = ''Take '' @ rtype @ '' '' @ conn_route_id c @ '' direct'',
           alternative_routes_count = 0, co2_saved_kg = Some 0, calories_burned = Some 0 \<rparr>)"

definition create_route_from_data ::
  "stops_cache \<Rightarrow> routes_cache \<Rightarrow> string \<Rightarrow> route_doc \<Rightarrow> string \<Rightarrow> string \<Rightarrow> int \<Rightarrow> real \<Rightarrow> int \<Rightarrow>
   error + optimized_route" where
  "create_route_from_data sc rc rid doc start_stop end_stop travel_time travel_cost stops_between =
     (case map_of sc start_stop of
        None \<Rightarrow> Inl KeyError
      | Some start_obj \<Rightarrow>
     (case map_of sc end_stop of
        None \<Rightarrow> Inl KeyError
      | Some end_obj \<Rightarrow>
        (let rname = route_name_of (Some doc) rid;
             rtype = route_type_of (Some doc) ''metro'';
             boarding = fst (get_mode_specific_penalties rc rid);
             segment = \<lparr> route_id = rid, route_name = rname, route_type = rtype,
                         from_stop = start_stop, to_stop = end_stop,
                         from_stop_name = stop_name start_obj, to_stop_name = stop_name end_obj,
                         seg_time = travel_time, seg_cost = travel_cost,
                         sequence_start = 1, sequence_end = stops_between + 1,
                         boarding_time = boarding, transfer_time = 0, walking_directions = [] \<rparr>
         in Inr \<lparr> path = [start_stop, end_stop], segments = [segment],
                  total_time = Fin (travel_time + boarding), total_cost = travel_cost,
                  transfers = 0, walking_time = Fin 0, total_distance_km = 0,
                  start_walking_time = Fin 0, end_walking_time = Fin 0,
                  route_summary = ''Take '' @ rtype @ '' '' @ rname @ '' for ''
                                    @ str_int stops_between @ '' stops'',
                  alternative_routes_count = 0, co2_saved_kg = Some (5 / 2),
                  calories_burned = Some 0 \<rparr>)))"

text \<open>
  The backing store (app/database.py). A database is the list of its stop documents and
  the list of its route documents. Reading the store either raises, when \<open>get_database\<close>
  cannot connect (\<open>connect_to_mongo\<close> logs and re-raises) or the query fails, or gives the
  documents: a \<open>backing_store\<close> is the outcome of the read.
\<close>

record database =
  db_stops :: "stop list"
  db_routes :: "route_doc list"

type_synonym backing_store = "error + database"

text \<open>
  \<open>_find_route_serving_both_stops\<close> reads the routes collection of the backing store
  with no handler for a failed read, so that exception leaves the function. On the
  documents, the pipeline keeps those whose \<open>stops\<close> hold both ids and takes the first.
\<close>

definition find_route_serving_both_stops ::
  "stops_cache \<Rightarrow> routes_cache \<Rightarrow> backing_store \<Rightarrow> string \<Rightarrow> string \<Rightarrow> error + optimized_route option" where
  "find_route_serving_both_stops sc rc store start_stop end_stop =
     (case store of
        Inl e \<Rightarrow> Inl e
      | Inr db \<Rightarrow>
     (case filter (\<lambda>d. start_stop \<in> set (doc_stops d) \<and> end_stop \<in> set (doc_stops d)) (db_routes db) of
        [] \<Rightarrow> Inr None
      | doc # _ \<Rightarrow>
          (let start_idx = int (index_of start_stop (doc_stops doc));
               end_idx = int (index_of end_stop (doc_stops doc));
               stops_between = \<bar>end_idx - start_idx\<bar>
           in case create_route_from_data sc rc (doc_route_id doc) doc start_stop end_stop
                     (stops_between * 3) (of_int stops_between * 2) stops_between of
                Inl e \<Rightarrow> Inl e
              | Inr r \<Rightarrow> Inr (Some r))))"

text \<open>The loop over \<open>start_stop.connections\<close> returns at the first connection to the end stop.\<close>

fun first_direct :: "string \<Rightarrow> connection list \<Rightarrow> connection option" where
  "first_direct end_stop [] = None"
| "first_direct end_stop (c # cs) = (if to_stop_id c = end_stop then Some c else first_direct end_stop cs)"

definition dijkstra_with_transfers ::
  "stops_cache \<Rightarrow> routes_cache \<Rightarrow> backing_store \<Rightarrow> string \<Rightarrow> string \<Rightarrow> string \<Rightarrow>
   error + optimized_route option" where
  "dijkstra_with_transfers sc rc store start_stop end_stop opt =
     (case (map_of sc start_stop, map_of sc end_stop) of
        (Some start_obj, Some end_obj) \<Rightarrow>
          if start_stop = end_stop then Inr (Some (same_stop_route start_stop))
          else (case first_direct end_stop (connections start_obj) of
                  Some c \<Rightarrow> Inr (Some (create_route_from_connection rc c start_obj end_obj))
                | None \<Rightarrow>
                    (case find_route_serving_both_stops sc rc store start_stop end_stop of
                       Inl e \<Rightarrow> Inl e
                     | Inr (Some r) \<Rightarrow> Inr (Some r)
                     | Inr None \<Rightarrow> dijkstra_pathfinding sc rc start_stop end_stop opt 5))
      | _ \<Rightarrow> Inr None)"

section \<open>Facade (app/services/route_optimizer.py)\<close>

text \<open>
  \<open>load_graph_data\<close> fills both caches from the backing store; its \<open>except Exception\<close>
  handler leaves both caches empty when the store cannot be read.
  \<open>find_route_by_stops\<close> loads when the stop cache is empty.
\<close>

text \<open>\<open>d[k] = v\<close> on a dict: an existing key keeps its place.\<close>

fun dict_set :: "'k \<Rightarrow> 'v \<Rightarrow> ('k \<times> 'v) list \<Rightarrow> ('k \<times> 'v) list" where
  "dict_set k v [] = [(k, v)]"
| "dict_set k v ((k', v') # rest) =
     (if k = k' then (k, v) # rest else (k', v') # dict_set k v rest)"

definition load_graph_data :: "backing_store \<Rightarrow> stops_cache \<times> routes_cache" where
  "load_graph_data store =
     (case store of
        Inl e \<Rightarrow> ([], [])
      | Inr db \<Rightarrow>
          (fold (\<lambda>s d. dict_set (stop_id s) s d) (db_stops db) [],
           fold (\<lambda>r d. dict_set (doc_route_id r) r d) (db_routes db) []))"

definition find_route_by_stops ::
  "stops_cache \<Rightarrow> routes_cache \<Rightarrow> backing_store \<Rightarrow> string \<Rightarrow> string \<Rightarrow> string \<Rightarrow>
   error + optimized_route option" where
  "find_route_by_stops sc rc store start_stop end_stop opt =
     (case (if sc = [] then load_graph_data store else (sc, rc)) of (sc', rc') \<Rightarrow>
        if map_of sc' start_stop = None \<or> map_of sc' end_stop = None then Inr None
        else dijkstra_with_transfers sc' rc' store start_stop end_stop opt)"

section \<open>Pathfinder: the execution trace (\<open>get_algorithm_execution_steps\<close>)\<close>

text \<open>
  The trace has its own queue entries (their segments are the dicts of the source, of
  which the loop reads \<open>route_id\<close>), a \<open>visited\<close> set kept in insertion order, and the list of
  step records. Of a step record the model keeps \<open>step\<close>, \<open>action\<close>, \<open>current_node\<close>,
  \<open>visited\<close>, \<open>path\<close> and \<open>found_destination\<close>; the description and the \<open>pq[:5]\<close> snapshot,
  which shows the layout of the heap's array, are left out. \<open>last_popped\<close> is the
  \<open>current_stop\<close> and \<open>path\<close> that the check after the loop reads from the last iteration.
\<close>

record dummy_segment =
  d_route_id :: string
  d_from_stop :: string
  d_to_stop :: string
  d_time :: int
  d_cost :: real

record titem =
  t_prio :: real
  t_count :: nat
  t_stop :: string
  t_path :: "string list"
  t_segments :: "dummy_segment list"
  t_transfers :: int
  t_time :: int
  t_cost :: real

record trace_step =
  step :: nat
  action :: string
  current_node :: string
  visited_nodes :: "string list"
  step_path :: "string list"
  found_destination :: bool

record trace_state =
  tpq :: "titem list"
  tcounter :: nat
  visited :: "string list"
  steps :: "trace_step list"
  step_count :: nat
  last_popped :: "(string \<times> string list) option"

definition titem_less :: "titem \<Rightarrow> titem \<Rightarrow> bool" where
  "titem_less a b = (t_prio a < t_prio b \<or> (t_prio a = t_prio b \<and> t_count a < t_count b))"

fun least_titem :: "titem \<Rightarrow> titem list \<Rightarrow> titem" where
  "least_titem m [] = m"
| "least_titem m (x # xs) = least_titem (if titem_less x m then x else m) xs"

definition theappop :: "titem list \<Rightarrow> titem \<times> titem list" where
  "theappop q = (let m = least_titem (hd q) (tl q) in (m, remove1 m q))"

definition trace_boarding_of :: "routes_cache \<Rightarrow> dummy_segment list \<Rightarrow> connection \<Rightarrow> int \<times> bool" where
  "trace_boarding_of rc segs c =
     (if length segs = 0 then (fst (get_mode_specific_penalties rc (conn_route_id c)), False)
      else if d_route_id (last segs) \<noteq> conn_route_id c then
        (fst (get_mode_specific_penalties rc (conn_route_id c))
           + snd (get_mode_specific_penalties rc (conn_route_id c)), True)
      else (0, False))"

text \<open>
  One iteration of the trace's loop over the connections: the entry is pushed without a
  look at any recorded priority. The second component counts \<open>neighbors_added\<close>.
\<close>

definition trace_relax ::
  "stops_cache \<Rightarrow> routes_cache \<Rightarrow> string \<Rightarrow> titem \<Rightarrow> connection \<Rightarrow> trace_state \<times> nat \<Rightarrow>
   error + (trace_state \<times> nat)" where
  "trace_relax sc rc opt cur c sn =
     (let st = fst sn; next_stop = to_stop_id c in
      if next_stop \<in> set (t_path cur) then Inr sn
      else
        let boarding_penalty = fst (trace_boarding_of rc (t_segments cur) c);
            is_transfer = snd (trace_boarding_of rc (t_segments cur) c);
            new_time = t_time cur + conn_time c + boarding_penalty;
            new_cost = t_cost cur + conn_cost c;
            new_transfers = t_transfers cur + (if is_transfer then 1 else 0);
            priority = priority_of opt new_time new_cost new_transfers
        in case map_of sc (t_stop cur) of
             None \<Rightarrow> Inl KeyError
           | Some cur_obj \<Rightarrow>
               (case map_of sc next_stop of
                  None \<Rightarrow> Inl KeyError
                | Some next_obj \<Rightarrow>
                    Inr (st\<lparr> tpq := tpq st @ [\<lparr> t_prio = priority, t_count = tcounter st,
                                  t_stop = next_stop, t_path = t_path cur @ [next_stop],
                                  t_segments = t_segments cur @
                                    [\<lparr> d_route_id = conn_route_id c, d_from_stop = t_stop cur,
                                       d_to_stop = next_stop, d_time = conn_time c,
                                       d_cost = conn_cost c \<rparr>],
                                  t_transfers = new_transfers, t_time = new_time,
                                  t_cost = new_cost \<rparr>],
                              tcounter := Suc (tcounter st) \<rparr>, Suc (snd sn))))"

fun trace_explore ::
  "stops_cache \<Rightarrow> routes_cache \<Rightarrow> string \<Rightarrow> titem \<Rightarrow> connection list \<Rightarrow> trace_state \<times> nat \<Rightarrow>
   error + (trace_state \<times> nat)" where
  "trace_explore sc rc opt cur [] sn = Inr sn"
| "trace_explore sc rc opt cur (c # cs) sn =
     (case trace_relax sc rc opt cur c sn of
        Inl e \<Rightarrow> Inl e
      | Inr sn' \<Rightarrow> trace_explore sc rc opt cur cs sn')"

definition mk_step :: "trace_state \<Rightarrow> string \<Rightarrow> string \<Rightarrow> string list \<Rightarrow> bool \<Rightarrow> trace_step" where
  "mk_step st act node p found =
     \<lparr> step = step_count st, action = act, current_node = node, visited_nodes = visited st,
       step_path = p, found_destination = found \<rparr>"

definition add_step :: "trace_state \<Rightarrow> string \<Rightarrow> string \<Rightarrow> string list \<Rightarrow> trace_state" where
  "add_step st act node p =
     st\<lparr> steps := steps st @ [mk_step st act node p False], step_count := Suc (step_count st) \<rparr>"

text \<open>The check after the loop; it also runs after the \<open>break\<close> at the destination.\<close>

definition trace_finish :: "string \<Rightarrow> trace_state \<Rightarrow> trace_step list" where
  "trace_finish start_stop st =
     (let node = (case last_popped st of None \<Rightarrow> start_stop | Some (n, p) \<Rightarrow> n);
          p = (case last_popped st of None \<Rightarrow> [start_stop] | Some (n, p) \<Rightarrow> p)
      in if step_count st \<ge> 100 then
           (if tpq st \<noteq> [] then steps st @ [mk_step st ''max_steps_reached'' node p False]
            else steps st @ [mk_step st ''no_route_found'' node p False])
         else if tpq st = [] then steps st @ [mk_step st ''no_route_found'' node p False]
         else steps st)"

lemma trace_relax_count:
  "trace_relax sc rc opt cur c sn = Inr sn' \<Longrightarrow> step_count (fst sn') = step_count (fst sn)"
  by (auto simp: trace_relax_def Let_def split: if_splits option.splits)

lemma trace_explore_count:
  "trace_explore sc rc opt cur cs sn = Inr sn' \<Longrightarrow> step_count (fst sn') = step_count (fst sn)"
proof (induction cs arbitrary: sn)
  case Nil
  then show ?case by simp
next
  case (Cons c cs)
  then show ?case by (auto split: sum.splits dest: trace_relax_count)
qed

function trace_loop ::
  "stops_cache \<Rightarrow> routes_cache \<Rightarrow> string \<Rightarrow> string \<Rightarrow> string \<Rightarrow> trace_state \<Rightarrow> error + trace_step list" where
  "trace_loop sc rc start_stop end_stop opt st =
     (if tpq st = [] \<or> \<not> step_count st < 100 then Inr (trace_finish start_stop st)
      else case theappop (tpq st) of (cur, rest) \<Rightarrow>
        if t_stop cur \<in> set (visited st) then
          trace_loop sc rc start_stop end_stop opt
            (add_step (st\<lparr> tpq := rest, last_popped := Some (t_stop cur, t_path cur) \<rparr>)
               ''skip_visited'' (t_stop cur) (t_path cur))
        else if t_stop cur = end_stop then
          Inr (trace_finish start_stop
                 (st\<lparr> tpq := rest, last_popped := Some (t_stop cur, t_path cur),
                      visited := visited st @ [t_stop cur],
                      steps := steps st @
                        [mk_step (st\<lparr> visited := visited st @ [t_stop cur] \<rparr>)
                           ''found_destination'' (t_stop cur) (t_path cur) True] \<rparr>))
        else
          (case map_of sc (t_stop cur) of
             None \<Rightarrow>
               trace_loop sc rc start_stop end_stop opt
                 (add_step (st\<lparr> tpq := rest, last_popped := Some (t_stop cur, t_path cur),
                                 visited := visited st @ [t_stop cur] \<rparr>)
                    ''process_node'' (t_stop cur) (t_path cur))
           | Some obj \<Rightarrow>
               (case trace_explore sc rc opt cur (connections obj)
                       (add_step (st\<lparr> tpq := rest, last_popped := Some (t_stop cur, t_path cur),
                                       visited := visited st @ [t_stop cur] \<rparr>)
                          ''process_node'' (t_stop cur) (t_path cur), 0) of
                  Inl e \<Rightarrow> Inl e
                | Inr (st2, n) \<Rightarrow>
                    trace_loop sc rc start_stop end_stop opt
                      (if n > 0 then add_step st2 ''add_neighbors'' (t_stop cur) (t_path cur)
                       else st2))))"
  by pat_completeness auto
termination
  apply (relation "measure (\<lambda>(sc, rc, start_stop, end_stop, opt, st). 100 - step_count st)")
  apply (auto simp: add_step_def dest!: trace_explore_count)
  done

declare trace_loop.simps [simp del]

definition get_algorithm_execution_steps ::
  "stops_cache \<Rightarrow> routes_cache \<Rightarrow> string \<Rightarrow> string \<Rightarrow> string \<Rightarrow> error + trace_step list" where
  "get_algorithm_execution_steps sc rc start_stop end_stop opt =
     (if map_of sc start_stop = None \<or> map_of sc end_stop = None then Inr []
      else trace_loop sc rc start_stop end_stop opt
             \<lparr> tpq = [\<lparr> t_prio = 0, t_count = 0, t_stop = start_stop, t_path = [start_stop],
                        t_segments = [], t_transfers = 0, t_time = 0, t_cost = 0 \<rparr>],
               tcounter = 1,
               visited = [],
               steps = [\<lparr> step = 0, action = ''initialize'', current_node = start_stop,
                          visited_nodes = [], step_path = [start_stop],
                          found_destination = False \<rparr>],
               step_count = 1,
               last_popped = None \<rparr>)"

section \<open>Route enhancer (app/services/route_enhancer.py)\<close>

text \<open>The separator of the summary, a space, U+2192 in UTF-8 and a space.\<close>

definition arrow :: string where
  "arrow = [CHR '' '', CHR 0xE2, CHR 0x86, CHR 0x92, CHR '' '']"

fun join :: "string \<Rightarrow> string list \<Rightarrow> string" where
  "join sep [] = []"
| "join sep [x] = x"
| "join sep (x # y # ys) = x @ sep @ join sep (y # ys)"

definition take_clause :: "string \<Rightarrow> nat \<Rightarrow> string" where
  "take_clause current_route segment_count =
     ''Take '' @ (if py_in ''METRO'' current_route then ''metro'' else ''bus'') @ '' ''
       @ current_route @ '' for '' @ str_nat segment_count @ '' stops''"

text \<open>
  The loop of \<open>_generate_route_summary\<close> over the segments, with \<open>current_route\<close> (None
  before the first segment), \<open>segment_count\<close> and the parts collected so far; after the
  loop the last route is added when \<open>current_route\<close> is a non-empty string.
\<close>

fun summary_loop :: "route_segment list \<Rightarrow> string option \<Rightarrow> nat \<Rightarrow> string list \<Rightarrow> string list" where
  "summary_loop [] current_route segment_count parts =
     (case current_route of
        None \<Rightarrow> parts
      | Some r \<Rightarrow> if r \<noteq> [] then parts @ [take_clause r segment_count] else parts)"
| "summary_loop (seg # segs) current_route segment_count parts =
     (if Some (route_id seg) \<noteq> current_route then
        summary_loop segs (Some (route_id seg)) 1
          (case current_route of
             None \<Rightarrow> parts
           | Some r \<Rightarrow> parts @ [take_clause r segment_count])
      else summary_loop segs current_route (Suc segment_count) parts)"

definition generate_route_summary :: "optimized_route \<Rightarrow> string" where
  "generate_route_summary route =
     (case segments route of
        [] \<Rightarrow> ''No route found''
      | seg0 # _ \<Rightarrow>
          join arrow
            (summary_loop (segments route) None 0
               (if xint_pos (start_walking_time route)
                then [''Walk '' @ str_xint (start_walking_time route) @ ''min to '' @ from_stop_name seg0]
                else [])
             @ (if xint_pos (end_walking_time route)
                then [''Walk '' @ str_xint (end_walking_time route) @ ''min to destination'']
                else [])))"

text \<open>
  \<open>_calculate_co2_saved\<close>; \<open>round(x, 2)\<close> on a float is the parameter \<open>round2\<close>.
\<close>

fun transit_distance :: "route_segment list \<Rightarrow> real \<Rightarrow> real" where
  "transit_distance [] acc = acc"
| "transit_distance (seg # segs) acc =
     transit_distance segs
       (if route_type seg = ''bus'' \<or> route_type seg = ''metro'' then
          acc + max 0 (if route_type seg = ''metro''
                         then (of_int (seg_time seg) - 1) * (35 / 60)
                         else (of_int (seg_time seg) - 2) * (20 / 60))
        else acc)"

definition calculate_co2_saved :: "(real \<Rightarrow> real) \<Rightarrow> optimized_route \<Rightarrow> real" where
  "calculate_co2_saved round2 route =
     round2 (transit_distance (segments route) (total_distance_km route) * (21 / 100))"

text \<open>\<open>_calculate_calories_burned\<close>: \<open>int\<close> of an infinite float raises OverflowError.\<close>

definition calculate_calories_burned :: "optimized_route \<Rightarrow> error + int" where
  "calculate_calories_burned route =
     (case walking_time route of
        PosInf \<Rightarrow> Inl OverflowError
      | Fin w \<Rightarrow> Inr (py_int (of_int w * 4)))"

text \<open>
  \<open>_generate_walking_direction\<close> computes a bearing with trigonometric functions; it is
  the parameter \<open>gen_dir\<close>, from the two points and the instruction. A walking segment is a
  \<open>RouteSegment\<close> whose \<open>time\<close> must be an int: an infinite walking time fails validation.
\<close>

type_synonym gen_dir = "real \<Rightarrow> real \<Rightarrow> real \<Rightarrow> real \<Rightarrow> string \<Rightarrow> error + walking_direction"

definition walking_segment ::
  "string \<Rightarrow> string \<Rightarrow> string \<Rightarrow> string \<Rightarrow> xint \<Rightarrow> int \<Rightarrow> int \<Rightarrow> walking_direction \<Rightarrow> error + route_segment" where
  "walking_segment src dst src_name dst_name t seq_start seq_end direction =
     (case t of
        PosInf \<Rightarrow> Inl ValidationError
      | Fin m \<Rightarrow>
          Inr \<lparr> route_id = ''WALKING'', route_name = ''Walking'', route_type = ''walking'',
                from_stop = src, to_stop = dst, from_stop_name = src_name, to_stop_name = dst_name,
                seg_time = m, seg_cost = 0, sequence_start = seq_start, sequence_end = seq_end,
                boarding_time = 0, transfer_time = 0, walking_directions = [direction] \<rparr>)"

definition add_start_walk ::
  "geodesic \<Rightarrow> gen_dir \<Rightarrow> stops_cache \<Rightarrow> optimized_route \<Rightarrow> real \<Rightarrow> real \<Rightarrow> error + optimized_route" where
  "add_start_walk geo gd sc route start_lat start_lon =
     (let first_stop_id = from_stop (hd (segments route)) in
      case map_of sc first_stop_id of
        None \<Rightarrow> Inr route
      | Some first_stop \<Rightarrow>
          (case calculate_walking_time_from_coords geo sc start_lat start_lon first_stop_id of
             Inl e \<Rightarrow> Inl e
           | Inr (start_walking, start_distance) \<Rightarrow>
               if xint_pos start_walking then
                 (case gd start_lat start_lon (snd (location first_stop)) (fst (location first_stop))
                          (''Walk to '' @ stop_name first_stop) of
                    Inl e \<Rightarrow> Inl e
                  | Inr direction \<Rightarrow>
                      (case walking_segment ''START'' first_stop_id ''Your Location''
                              (stop_name first_stop) start_walking 0 1 direction of
                         Inl e \<Rightarrow> Inl e
                       | Inr ws \<Rightarrow> Inr (route\<lparr> start_walking_time := start_walking,
                                                segments := ws # segments route \<rparr>)))
               else Inr (route\<lparr> start_walking_time := start_walking \<rparr>)))"

definition add_end_walk ::
  "geodesic \<Rightarrow> gen_dir \<Rightarrow> stops_cache \<Rightarrow> optimized_route \<Rightarrow> real \<Rightarrow> real \<Rightarrow> error + optimized_route" where
  "add_end_walk geo gd sc route end_lat end_lon =
     (let last_stop_id = to_stop (last (segments route)) in
      case map_of sc last_stop_id of
        None \<Rightarrow> Inr route
      | Some last_stop \<Rightarrow>
          (case calculate_walking_time_from_coords geo sc end_lat end_lon last_stop_id of
             Inl e \<Rightarrow> Inl e
           | Inr (end_walking, end_distance) \<Rightarrow>
               if xint_pos end_walking then
                 (case gd (snd (location last_stop)) (fst (location last_stop)) end_lat end_lon
                          ''Walk to destination'' of
                    Inl e \<Rightarrow> Inl e
                  | Inr direction \<Rightarrow>
                      (case walking_segment last_stop_id ''END'' (stop_name last_stop)
                              ''Your Destination'' end_walking (int (length (segments route)))
                              (int (length (segments route)) + 1) direction of
                         Inl e \<Rightarrow> Inl e
                       | Inr ws \<Rightarrow> Inr (route\<lparr> end_walking_time := end_walking,
                                                segments := segments route @ [ws] \<rparr>)))
               else Inr (route\<lparr> end_walking_time := end_walking \<rparr>)))"

definition add_walking_directions ::
  "geodesic \<Rightarrow> gen_dir \<Rightarrow> stops_cache \<Rightarrow> optimized_route \<Rightarrow> real \<Rightarrow> real \<Rightarrow> real \<Rightarrow> real \<Rightarrow>
   error + optimized_route" where
  "add_walking_directions geo gd sc route start_lat start_lon end_lat end_lon =
     (if segments route = [] then Inr route
      else case add_start_walk geo gd sc route start_lat start_lon of
             Inl e \<Rightarrow> Inl e
           | Inr route1 \<Rightarrow> add_end_walk geo gd sc route1 end_lat end_lon)"

definition enhance_segment :: "route_segment \<Rightarrow> route_segment" where
  "enhance_segment seg =
     (if py_in ''METRO'' (route_id seg) then seg\<lparr> route_type := ''metro'' \<rparr>
      else if route_id seg = ''WALKING'' then seg\<lparr> route_type := ''walking'' \<rparr>
      else seg\<lparr> route_type := ''bus'' \<rparr>)"

definition enhance_route ::
  "geodesic \<Rightarrow> gen_dir \<Rightarrow> (real \<Rightarrow> real) \<Rightarrow> stops_cache \<Rightarrow> optimized_route \<Rightarrow>
   real \<Rightarrow> real \<Rightarrow> real \<Rightarrow> real \<Rightarrow> error + optimized_route" where
  "enhance_route geo gd round2 sc route start_lat start_lon end_lat end_lon =
     (let route1 = route\<lparr> route_summary := generate_route_summary route \<rparr>;
          route2 = route1\<lparr> co2_saved_kg := Some (calculate_co2_saved round2 route1) \<rparr>
      in case calculate_calories_burned route2 of
           Inl e \<Rightarrow> Inl e
         | Inr cal \<Rightarrow>
             (case add_walking_directions geo gd sc (route2\<lparr> calories_burned := Some cal \<rparr>)
                     start_lat start_lon end_lat end_lon of
                Inl e \<Rightarrow> Inl e
              | Inr route3 \<Rightarrow> Inr (route3\<lparr> segments := map enhance_segment (segments route3) \<rparr>)))"

section \<open>Coordinate queries (\<open>find_optimal_route\<close>)\<close>

definition calculate_total_cost :: "optimized_route \<Rightarrow> string \<Rightarrow> xreal" where
  "calculate_total_cost route opt =
     (if opt = ''time'' then xreal_of (xadd (total_time route) (walking_time route))
      else if opt = ''cost'' then FinR (total_cost route)
      else FinR (of_int (transfers route)))"

text \<open>
  The body of the loops of \<open>find_optimal_route\<close> for one pair of stops: the search, and
  for an itinerary the three assignments \<open>route.walking_time = ...\<close>,
  \<open>route.total_distance_km = ...\<close> and \<open>route.total_time += route.walking_time\<close>.
\<close>

definition add_walking :: "optimized_route \<Rightarrow> xint \<times> real \<Rightarrow> xint \<times> real \<Rightarrow> optimized_route" where
  "add_walking route sw ew =
     (let route1 = route\<lparr> walking_time := xadd (fst sw) (fst ew) \<rparr>;
          route2 = route1\<lparr> total_distance_km := snd sw + snd ew \<rparr>
      in route2\<lparr> total_time := xadd (total_time route2) (walking_time route2) \<rparr>)"

definition try_pair ::
  "geodesic \<Rightarrow> stops_cache \<Rightarrow> routes_cache \<Rightarrow> backing_store \<Rightarrow> real \<Rightarrow> real \<Rightarrow> real \<Rightarrow> real \<Rightarrow> string \<Rightarrow>
   string \<Rightarrow> string \<Rightarrow> error + optimized_route option" where
  "try_pair geo sc rc store start_lat start_lon end_lat end_lon opt start_stop end_stop =
     (case dijkstra_with_transfers sc rc store start_stop end_stop opt of
        Inl e \<Rightarrow> Inl e
      | Inr None \<Rightarrow> Inr None
      | Inr (Some route) \<Rightarrow>
          (case calculate_walking_time_from_coords geo sc start_lat start_lon start_stop of
             Inl e \<Rightarrow> Inl e
           | Inr sw \<Rightarrow>
               (case calculate_walking_time_from_coords geo sc end_lat end_lon end_stop of
                  Inl e \<Rightarrow> Inl e
                | Inr ew \<Rightarrow> Inr (Some (add_walking route sw ew)))))"

definition keep_better ::
  "string \<Rightarrow> optimized_route \<Rightarrow> optimized_route option \<times> xreal \<Rightarrow> optimized_route option \<times> xreal" where
  "keep_better opt route best =
     (if xless (calculate_total_cost route opt) (snd best)
      then (Some route, calculate_total_cost route opt) else best)"

fun end_loop ::
  "geodesic \<Rightarrow> stops_cache \<Rightarrow> routes_cache \<Rightarrow> backing_store \<Rightarrow> real \<Rightarrow> real \<Rightarrow> real \<Rightarrow> real \<Rightarrow> string \<Rightarrow>
   string \<Rightarrow> string list \<Rightarrow> optimized_route option \<times> xreal \<Rightarrow> error + (optimized_route option \<times> xreal)" where
  "end_loop geo sc rc store start_lat start_lon end_lat end_lon opt start_stop [] best = Inr best"
| "end_loop geo sc rc store start_lat start_lon end_lat end_lon opt start_stop (end_stop # es) best =
     (case try_pair geo sc rc store start_lat start_lon end_lat end_lon opt start_stop end_stop of
        Inl e \<Rightarrow> Inl e
      | Inr None \<Rightarrow> end_loop geo sc rc store start_lat start_lon end_lat end_lon opt start_stop es best
      | Inr (Some route) \<Rightarrow>
          end_loop geo sc rc store start_lat start_lon end_lat end_lon opt start_stop es
            (keep_better opt route best))"

fun start_loop ::
  "geodesic \<Rightarrow> stops_cache \<Rightarrow> routes_cache \<Rightarrow> backing_store \<Rightarrow> real \<Rightarrow> real \<Rightarrow> real \<Rightarrow> real \<Rightarrow> string \<Rightarrow>
   string list \<Rightarrow> string list \<Rightarrow> optimized_route option \<times> xreal \<Rightarrow> error + (optimized_route option \<times> xreal)" where
  "start_loop geo sc rc store start_lat start_lon end_lat end_lon opt [] es best = Inr best"
| "start_loop geo sc rc store start_lat start_lon end_lat end_lon opt (start_stop # ss) es best =
     (case end_loop geo sc rc store start_lat start_lon end_lat end_lon opt start_stop es best of
        Inl e \<Rightarrow> Inl e
      | Inr best' \<Rightarrow> start_loop geo sc rc store start_lat start_lon end_lat end_lon opt ss es best')"

text \<open>
  \<open>find_optimal_route\<close> loads the caches when the stop cache is empty, validates both
  points, takes three nearest stops for each and runs the loops from
  \<open>best_route = None\<close>, \<open>best_cost = float('inf')\<close>.
\<close>

definition find_optimal_route ::
  "geodesic \<Rightarrow> stops_cache \<Rightarrow> routes_cache \<Rightarrow> backing_store \<Rightarrow> real \<Rightarrow> real \<Rightarrow> real \<Rightarrow> real \<Rightarrow> string \<Rightarrow>
   error + optimized_route option" where
  "find_optimal_route geo sc0 rc0 store start_lat start_lon end_lat end_lon opt =
     (case (if sc0 = [] then load_graph_data store else (sc0, rc0)) of (sc, rc) \<Rightarrow>
      case validate_coordinates geo sc start_lat start_lon of
        Inl e \<Rightarrow> Inl e
      | Inr False \<Rightarrow> Inr None
      | Inr True \<Rightarrow>
     (case validate_coordinates geo sc end_lat end_lon of
        Inl e \<Rightarrow> Inl e
      | Inr False \<Rightarrow> Inr None
      | Inr True \<Rightarrow>
     (case find_nearest_stops geo sc start_lat start_lon 3 of
        Inl e \<Rightarrow> Inl e
      | Inr start_stops_with_dist \<Rightarrow>
     (case find_nearest_stops geo sc end_lat end_lon 3 of
        Inl e \<Rightarrow> Inl e
      | Inr end_stops_with_dist \<Rightarrow>
          if start_stops_with_dist = [] \<or> end_stops_with_dist = [] then Inr None
          else (case start_loop geo sc rc store start_lat start_lon end_lat end_lon opt
                       (map fst start_stops_with_dist) (map fst end_stops_with_dist) (None, InfR) of
                  Inl e \<Rightarrow> Inl e
                | Inr best \<Rightarrow> Inr (fst best))))))"

section \<open>Notions used by the claims\<close>

text \<open>
  \<open>edges\<close> is the connection graph: one edge per connection of a cached stop. A graph
  is closed when every connection leads to a cached stop; the keys of a cache are
  consistent when each key is the \<open>stop_id\<close> of its stop, as \<open>load_graph_data\<close> stores them.
\<close>

definition edges :: "stops_cache \<Rightarrow> (string \<times> string) set" where
  "edges sc = {(a, b). \<exists>obj c. map_of sc a = Some obj \<and> c \<in> set (connections obj) \<and> to_stop_id c = b}"

definition closed_graph :: "stops_cache \<Rightarrow> bool" where
  "closed_graph sc = (\<forall>kv \<in> set sc. \<forall>c \<in> set (connections (snd kv)). map_of sc (to_stop_id c) \<noteq> None)"

definition keys_consistent :: "stops_cache \<Rightarrow> bool" where
  "keys_consistent sc = (\<forall>kv \<in> set sc. stop_id (snd kv) = fst kv)"

text \<open>
  The priority key of a walk, by the rule of the search: the first connection pays the
  boarding time of its route, a connection whose route differs from the previous one is a
  transfer and pays boarding plus transfer time.
\<close>

fun walk_totals :: "routes_cache \<Rightarrow> string option \<Rightarrow> connection list \<Rightarrow> int \<times> int \<Rightarrow> int \<times> int" where
  "walk_totals rc prev [] acc = acc"
| "walk_totals rc prev (c # cs) (tr, tm) =
     (case prev of
        None \<Rightarrow> walk_totals rc (Some (conn_route_id c)) cs
                  (tr, tm + conn_time c + fst (get_mode_specific_penalties rc (conn_route_id c)))
      | Some p \<Rightarrow>
          if p \<noteq> conn_route_id c
          then walk_totals rc (Some (conn_route_id c)) cs
                 (tr + 1, tm + conn_time c + fst (get_mode_specific_penalties rc (conn_route_id c))
                            + snd (get_mode_specific_penalties rc (conn_route_id c)))
          else walk_totals rc (Some (conn_route_id c)) cs (tr, tm + conn_time c))"

definition transfers_key :: "routes_cache \<Rightarrow> connection list \<Rightarrow> int" where
  "transfers_key rc cs = (case walk_totals rc None cs (0, 0) of (tr, tm) \<Rightarrow> tr * 100 + tm)"

fun is_walk :: "stops_cache \<Rightarrow> string \<Rightarrow> connection list \<Rightarrow> bool" where
  "is_walk sc a [] = True"
| "is_walk sc a (c # cs) =
     (case map_of sc a of
        None \<Rightarrow> False
      | Some obj \<Rightarrow> c \<in> set (connections obj) \<and> is_walk sc (to_stop_id c) cs)"

definition walk_stops :: "string \<Rightarrow> connection list \<Rightarrow> string list" where
  "walk_stops a cs = a # map to_stop_id cs"

text \<open>
  The distance from the query point to a stop, and the stops within walking distance as
  \<open>(stop_id, distance)\<close> pairs in cache order.
\<close>

definition stop_distance :: "geodesic \<Rightarrow> real \<Rightarrow> real \<Rightarrow> stop \<Rightarrow> error + real" where
  "stop_distance geo lat lon s =
     geo (Some lat, Some lon) (Some (snd (location s)), Some (fst (location s)))"

fun within_walking :: "geodesic \<Rightarrow> real \<Rightarrow> real \<Rightarrow> (string \<times> stop) list \<Rightarrow> (string \<times> real) list" where
  "within_walking geo lat lon [] = []"
| "within_walking geo lat lon ((k, s) # rest) =
     (case stop_distance geo lat lon s of
        Inr d \<Rightarrow> if d \<le> MAX_WALKING_DISTANCE_KM then (k, d) # within_walking geo lat lon rest
                  else within_walking geo lat lon rest
      | Inl e \<Rightarrow> within_walking geo lat lon rest)"

text \<open>
  \<open>nearestStops\<close> as the specification words it: sorted by distance alone, ties in the
  order of the cache (a stable sort on the distance).
\<close>

definition find_nearest_stops_stable ::
  "geodesic \<Rightarrow> stops_cache \<Rightarrow> real \<Rightarrow> real \<Rightarrow> int \<Rightarrow> (string \<times> real) list" where
  "find_nearest_stops_stable geo sc lat lon limit =
     py_take limit (sort_key snd (within_walking geo lat lon sc))"

text \<open>
  The itinerary that a pair of stops contributes to \<open>find_optimal_route\<close>, in the words of
  the specification: when the search for the pair returns an itinerary, that itinerary
  with the walking minutes of both ends as its walking time and added to its total time,
  and both walking distances added to its total distance; nothing otherwise.
\<close>

definition pair_itinerary ::
  "geodesic \<Rightarrow> stops_cache \<Rightarrow> routes_cache \<Rightarrow> backing_store \<Rightarrow> real \<Rightarrow> real \<Rightarrow> real \<Rightarrow> real \<Rightarrow> string \<Rightarrow>
   string \<times> string \<Rightarrow> optimized_route option" where
  "pair_itinerary geo sc rc store start_lat start_lon end_lat end_lon opt p =
     (case dijkstra_with_transfers sc rc store (fst p) (snd p) opt of
        Inr (Some r) \<Rightarrow>
          (case calculate_walking_time_from_coords geo sc start_lat start_lon (fst p) of
             Inr (sw, sd) \<Rightarrow>
               (case calculate_walking_time_from_coords geo sc end_lat end_lon (snd p) of
                  Inr (ew, ed) \<Rightarrow>
                    Some (r\<lparr> walking_time := xadd sw ew,
                             total_time := xadd (total_time r) (xadd sw ew),
                             total_distance_km := total_distance_km r + (sd + ed) \<rparr>)
                | Inl x \<Rightarrow> None)
           | Inl x \<Rightarrow> None)
      | _ \<Rightarrow> None)"

text \<open>
  The itineraries that the loops of \<open>find_optimal_route\<close> compare, in the order of the
  loops: what \<open>try_pair\<close> yields for each pair.
\<close>

fun candidates ::
  "geodesic \<Rightarrow> stops_cache \<Rightarrow> routes_cache \<Rightarrow> backing_store \<Rightarrow> real \<Rightarrow> real \<Rightarrow> real \<Rightarrow> real \<Rightarrow> string \<Rightarrow>
   (string \<times> string) list \<Rightarrow> error + optimized_route list" where
  "candidates geo sc rc store start_lat start_lon end_lat end_lon opt [] = Inr []"
| "candidates geo sc rc store start_lat start_lon end_lat end_lon opt ((s, e) # ps) =
     (case try_pair geo sc rc store start_lat start_lon end_lat end_lon opt s e of
        Inl x \<Rightarrow> Inl x
      | Inr res \<Rightarrow>
          (case candidates geo sc rc store start_lat start_lon end_lat end_lon opt ps of
             Inl x \<Rightarrow> Inl x
           | Inr cs \<Rightarrow> Inr ((case res of None \<Rightarrow> [] | Some r \<Rightarrow> [r]) @ cs)))"

text \<open>
  What the loops keep: \<open>first_minimum sc cs best\<close> says that \<open>best\<close> is the first element of
  \<open>cs\<close> whose scalar \<open>sc\<close> is finite and least, or None when no scalar is finite.
\<close>

definition first_minimum ::
  "(optimized_route \<Rightarrow> xreal) \<Rightarrow> optimized_route list \<Rightarrow> optimized_route option \<Rightarrow> bool" where
  "first_minimum sc cs best =
     (case best of
        None \<Rightarrow> (\<forall>y \<in> set cs. sc y = InfR)
      | Some b \<Rightarrow>
          (\<exists>i < length cs. cs ! i = b \<and> sc b \<noteq> InfR
              \<and> (\<forall>j < length cs. \<not> xless (sc (cs ! j)) (sc b))
              \<and> (\<forall>j < i. xless (sc b) (sc (cs ! j)))))"

section \<open>Concrete inputs\<close>

text \<open>
  \<open>test_stops\<close> and \<open>test_routes\<close> are the fixture of tests/test_graph_algorithms.py, with
  the isolated stop S5 of its test \<open>test_no_path_exists\<close>. In \<open>dangling_stops\<close> the stop S1
  has a connection to a stop that is not cached.
\<close>

definition test_stops :: stops_cache where
  "test_stops =
     [(''S1'', \<lparr> stop_id = ''S1'', stop_name = ''Stop 1'', location = (775946 / 10000, 129716 / 10000),
         connections =
           [\<lparr> to_stop_id = ''S2'', conn_route_id = ''R1'', conn_time = 10, conn_cost = 2, sequence = 1 \<rparr>,
            \<lparr> to_stop_id = ''S3'', conn_route_id = ''R2'', conn_time = 15, conn_cost = 3, sequence = 1 \<rparr>] \<rparr>),
      (''S2'', \<lparr> stop_id = ''S2'', stop_name = ''Stop 2'', location = (776081 / 10000, 129759 / 10000),
         connections =
           [\<lparr> to_stop_id = ''S3'', conn_route_id = ''R1'', conn_time = 8, conn_cost = 3 / 2, sequence = 2 \<rparr>,
            \<lparr> to_stop_id = ''S4'', conn_route_id = ''R3'', conn_time = 12, conn_cost = 5 / 2, sequence = 1 \<rparr>] \<rparr>),
      (''S3'', \<lparr> stop_id = ''S3'', stop_name = ''Stop 3'', location = (776108 / 10000, 129718 / 10000),
         connections =
           [\<lparr> to_stop_id = ''S4'', conn_route_id = ''R2'', conn_time = 6, conn_cost = 1, sequence = 2 \<rparr>] \<rparr>),
      (''S4'', \<lparr> stop_id = ''S4'', stop_name = ''Stop 4'', location = (776097 / 10000, 129833 / 10000),
         connections = [] \<rparr>),
      (''S5'', \<lparr> stop_id = ''S5'', stop_name = ''Isolated Stop'', location = (77, 12),
         connections = [] \<rparr>)]"

definition test_routes :: routes_cache where
  "test_routes =
     [(''R1'', \<lparr> doc_route_id = ''R1'', route_long_name = None, doc_route_type = None, doc_stops = [] \<rparr>),
      (''R2'', \<lparr> doc_route_id = ''R2'', route_long_name = None, doc_route_type = None, doc_stops = [] \<rparr>),
      (''R3'', \<lparr> doc_route_id = ''R3'', route_long_name = None, doc_route_type = None, doc_stops = [] \<rparr>)]"

definition dangling_stops :: stops_cache where
  "dangling_stops =
     [(''S1'', \<lparr> stop_id = ''S1'', stop_name = ''Stop 1'', location = (0, 0),
         connections =
           [\<lparr> to_stop_id = ''X'', conn_route_id = ''R1'', conn_time = 10, conn_cost = 2, sequence = 1 \<rparr>] \<rparr>),
      (''S5'', \<lparr> stop_id = ''S5'', stop_name = ''Isolated Stop'', location = (0, 0),
         connections = [] \<rparr>)]"

definition is_found :: "error + optimized_route option \<Rightarrow> bool" where
  "is_found x = (case x of Inr (Some r) \<Rightarrow> True | _ \<Rightarrow> False)"

text \<open>
  Small graphs: \<open>conn t r m\<close> is a connection to \<open>t\<close> on route \<open>r\<close> of \<open>m\<close> minutes,
  \<open>mk_stop k cs\<close> a cached stop \<open>k\<close> with the connections \<open>cs\<close>.
\<close>

definition conn :: "string \<Rightarrow> string \<Rightarrow> int \<Rightarrow> connection" where
  "conn t r m = \<lparr> to_stop_id = t, conn_route_id = r, conn_time = m, conn_cost = 1, sequence = 1 \<rparr>"

definition mk_stop :: "string \<Rightarrow> connection list \<Rightarrow> string \<times> stop" where
  "mk_stop k cs = (k, \<lparr> stop_id = k, stop_name = k, location = (0, 0), connections = cs \<rparr>)"

definition label_stops :: stops_cache where
  "label_stops =
     [mk_stop ''A'' [conn ''B'' ''R1'' 1, conn ''X'' ''R2'' 1],
      mk_stop ''X'' [conn ''B'' ''R2'' 1],
      mk_stop ''B'' [conn ''C'' ''R2'' 1],
      mk_stop ''C'' []]"

definition bound_stops :: stops_cache where
  "bound_stops =
     [mk_stop ''S'' [conn ''A'' ''R1'' 1, conn ''V'' ''R4'' 100],
      mk_stop ''A'' [conn ''U'' ''R2'' 1],
      mk_stop ''U'' [conn ''V'' ''R3'' 1],
      mk_stop ''V'' [conn ''E'' ''R4'' 1],
      mk_stop ''E'' []]"

definition route_key :: "error + optimized_route option \<Rightarrow> (string list \<times> int \<times> xint) option" where
  "route_key x = (case x of Inr (Some r) \<Rightarrow> Some (path r, transfers r, total_time r) | _ \<Rightarrow> None)"

text \<open>
  A chain of seven connections on seven routes, and a slow connection from the start to
  a stop Z that keeps the queue non-empty.
\<close>

definition chain_stops :: stops_cache where
  "chain_stops =
     [mk_stop ''N0'' [conn ''N1'' ''R1'' 1, conn ''Z'' ''R9'' 1000],
      mk_stop ''N1'' [conn ''N2'' ''R2'' 1],
      mk_stop ''N2'' [conn ''N3'' ''R3'' 1],
      mk_stop ''N3'' [conn ''N4'' ''R4'' 1],
      mk_stop ''N4'' [conn ''N5'' ''R5'' 1],
      mk_stop ''N5'' [conn ''N6'' ''R6'' 1],
      mk_stop ''N6'' [conn ''N7'' ''R7'' 1],
      mk_stop ''N7'' [],
      mk_stop ''Z'' []]"

definition trace_summary :: "error + trace_step list \<Rightarrow> (nat \<times> string \<times> string list \<times> bool) option" where
  "trace_summary x =
     (case x of
        Inr (s # ss) \<Rightarrow> Some (length (s # ss), action (last (s # ss)), visited_nodes (last (s # ss)),
                              found_destination (last (s # ss)))
      | _ \<Rightarrow> None)"

text \<open>
  A stand-in for the library's distance on a flat grid, for concrete inputs. A missing
  coordinate is read as 0.0, as geopy's \<open>Point\<close> normalises \<open>None\<close>.
\<close>

definition coord :: "real option \<Rightarrow> real" where
  "coord x = (case x of None \<Rightarrow> 0 | Some v \<Rightarrow> v)"

definition grid_geodesic :: geodesic where
  "grid_geodesic p q = Inr (\<bar>coord (fst p) - coord (fst q)\<bar> + \<bar>coord (snd p) - coord (snd q)\<bar>)"

text \<open>Two stops at the same point; the cache holds B before A.\<close>

definition tie_stops :: stops_cache where
  "tie_stops =
     [(''B'', \<lparr> stop_id = ''B'', stop_name = ''Second Street'', location = (0, 0), connections = [] \<rparr>),
      (''A'', \<lparr> stop_id = ''A'', stop_name = ''First Street'', location = (0, 0), connections = [] \<rparr>)]"

text \<open>
  An itinerary whose segments carry the route types of a routes cache: a train line, a
  metro line whose id lacks METRO, and a bus line whose id holds METRO.
\<close>

definition typed_segment :: "string \<Rightarrow> string \<Rightarrow> string \<Rightarrow> string \<Rightarrow> route_segment" where
  "typed_segment rid rtype a b =
     \<lparr> route_id = rid, route_name = rid, route_type = rtype, from_stop = a, to_stop = b,
       from_stop_name = a, to_stop_name = b, seg_time = 10, seg_cost = 2, sequence_start = 1,
       sequence_end = 2, boarding_time = 0, transfer_time = 0, walking_directions = [] \<rparr>"

definition typed_route :: optimized_route where
  "typed_route =
     \<lparr> path = [''N0'', ''N1'', ''N2'', ''N3''],
       segments = [typed_segment ''T1'' ''train'' ''N0'' ''N1'',
                   typed_segment ''PURPLE_LINE'' ''metro'' ''N1'' ''N2'',
                   typed_segment ''METRO_1'' ''bus'' ''N2'' ''N3''],
       total_time = Fin 30, total_cost = 6, transfers = 2, walking_time = Fin 1,
       total_distance_km = 1 / 10, start_walking_time = Fin 0, end_walking_time = Fin 0,
       route_summary = [], alternative_routes_count = 0, co2_saved_kg = None,
       calories_burned = None \<rparr>"

definition plain_direction :: gen_dir where
  "plain_direction lat1 lon1 lat2 lon2 instr =
     Inr \<lparr> instruction = instr, distance_meters = 0, duration_seconds = 0 \<rparr>"

definition enhanced_types :: "error + optimized_route \<Rightarrow> (string \<times> string) list option" where
  "enhanced_types x =
     (case x of Inr r \<Rightarrow> Some (map (\<lambda>seg. (route_id seg, route_type seg)) (segments r)) | Inl e \<Rightarrow> None)"

text \<open>A backing store that can be read and holds no document.\<close>

definition empty_store :: backing_store where
  "empty_store = Inr \<lparr> db_stops = [], db_routes = [] \<rparr>"

text \<open>
  A town for the coordinate query from (0.1, 0) to (10, 10) with \<open>grid_geodesic\<close>: the
  stops P1, P2, P3, P4 lie 0.1, 0.2, 0.3 and 0.4 km from the start point (1, 2, 3 and 4
  walking minutes), Q1 lies at the end point and Q2 0.3 km from it (3 walking minutes),
  M is far from both. P1 has direct connections to Q1 and Q2, P2 reaches both over M on
  one route, P3 and P4 have no connection.
\<close>

definition at_stop :: "string \<Rightarrow> real \<Rightarrow> real \<Rightarrow> connection list \<Rightarrow> string \<times> stop" where
  "at_stop k lat lon cs = (k, \<lparr> stop_id = k, stop_name = k, location = (lon, lat), connections = cs \<rparr>)"

definition town_stops :: stops_cache where
  "town_stops =
     [at_stop ''P1'' 0 0 [conn ''Q1'' ''R1'' 20, conn ''Q2'' ''R2'' 7],
      at_stop ''P2'' (3 / 10) 0 [conn ''M'' ''R3'' 3],
      at_stop ''P3'' (4 / 10) 0 [],
      at_stop ''P4'' (5 / 10) 0 [],
      at_stop ''M'' 5 5 [conn ''Q1'' ''R3'' 7, conn ''Q2'' ''R3'' 1],
      at_stop ''Q1'' 10 10 [],
      at_stop ''Q2'' (103 / 10) 10 []]"

definition route_view ::
  "error + optimized_route option \<Rightarrow> (string list \<times> xint \<times> xint \<times> real) option" where
  "route_view x =
     (case x of
        Inr (Some r) \<Rightarrow> Some (path r, total_time r, walking_time r, total_distance_km r)
      | _ \<Rightarrow> None)"

section \<open>Lemmas\<close>

lemma relax_cases:
  assumes "relax sc rc opt cur c st = Inr st'"
  shows "pq st' = pq st \<or>
         (\<exists>it. pq st' = pq st @ [it] \<and> q_stop it = to_stop_id c
                \<and> q_path it = q_path cur @ [to_stop_id c]
                \<and> to_stop_id c \<notin> set (q_path cur))"
  using assms by (auto simp: relax_def Let_def split: if_splits option.splits)

lemma explore_inv:
  assumes "explore sc rc opt cur cs st = Inr st'"
    and "\<forall>it \<in> set (pq st). I it"
    and "\<And>c it. c \<in> set cs \<Longrightarrow> q_stop it = to_stop_id c \<Longrightarrow> q_path it = q_path cur @ [to_stop_id c]
           \<Longrightarrow> to_stop_id c \<notin> set (q_path cur) \<Longrightarrow> I it"
  shows "\<forall>it \<in> set (pq st'). I it"
  using assms
proof (induction cs arbitrary: st)
  case Nil
  then show ?case by simp
next
  case (Cons c cs)
  from Cons.prems(1) obtain st1 where r: "relax sc rc opt cur c st = Inr st1"
    and e: "explore sc rc opt cur cs st1 = Inr st'"
    by (auto split: sum.splits)
  have "\<forall>it \<in> set (pq st1). I it"
    using relax_cases [OF r] Cons.prems(2) Cons.prems(3) [of c] by auto
  then show ?case
  proof (rule Cons.IH [OF e])
    fix c' and it :: qitem
    assume "c' \<in> set cs" "q_stop it = to_stop_id c'" "q_path it = q_path cur @ [to_stop_id c']"
      "to_stop_id c' \<notin> set (q_path cur)"
    then show "I it" using Cons.prems(3) [of c' it] by simp
  qed
qed

lemma heappop_rest_subset: "set (snd (heappop q)) \<subseteq> set q"
  using set_remove1_subset [of "least_item (hd q) (tl q)" q] by (simp add: heappop_def Let_def)

lemma dijkstra_loop_found:
  assumes "dijkstra_loop sc rc end_stop opt k st = Inr (Some r)"
    and "\<forall>it \<in> set (pq st). I it"
    and "\<forall>cur obj c it. I cur \<and> map_of sc (q_stop cur) = Some obj \<and> c \<in> set (connections obj)
           \<and> q_stop it = to_stop_id c \<and> q_path it = q_path cur @ [to_stop_id c]
           \<and> to_stop_id c \<notin> set (q_path cur) \<longrightarrow> I it"
  shows "\<exists>cur. I cur \<and> q_stop cur = end_stop \<and> r = found_route cur"
  using assms
proof (induction sc rc end_stop opt k st rule: dijkstra_loop.induct)
  case (1 sc rc end_stop opt k st)
  note res = "1.prems"(1) and inv = "1.prems"(2) and step = "1.prems"(3)
  note unfold = dijkstra_loop.simps [of sc rc end_stop opt k st]
  show ?case
  proof (cases "pq st = []")
    case True
    with res show ?thesis by (simp add: unfold)
  next
    case False
    obtain cur rest where hp': "heappop (pq st) = (cur, rest)"
      by (cases "heappop (pq st)") simp
    note hp = hp' [symmetric]
    have Icur: "I cur"
      using heappop_mem [OF False] hp inv by (metis fst_conv)
    have Irest: "\<forall>it \<in> set (pq (st\<lparr>pq := rest\<rparr>)). I it"
    proof -
      have "set rest \<subseteq> set (pq st)"
        using heappop_rest_subset [of "pq st"] hp by (metis snd_conv)
      with inv show ?thesis by auto
    qed
    show ?thesis
    proof (cases "stale st cur")
      case True
      with res False have "dijkstra_loop sc rc end_stop opt k (st\<lparr>pq := rest\<rparr>) = Inr (Some r)"
        by (simp add: unfold hp')
      from "1.IH"(1) [OF False hp True this Irest step] show ?thesis .
    next
      case fresh: False
      show ?thesis
      proof (cases "q_stop cur = end_stop")
        case True
        with res False fresh have "r = found_route cur"
          by (simp add: unfold hp')
        with Icur True show ?thesis by blast
      next
        case notend: False
        show ?thesis
        proof (cases "k \<le> q_transfers cur")
          case True
          with res False fresh notend
          have "dijkstra_loop sc rc end_stop opt k (st\<lparr>pq := rest\<rparr>) = Inr (Some r)"
            by (simp add: unfold hp')
          from "1.IH"(2) [OF False hp fresh notend True this Irest step] show ?thesis .
        next
          case more: False
          show ?thesis
          proof (cases "map_of sc (q_stop cur)")
            case None
            with res False fresh notend more
            have "dijkstra_loop sc rc end_stop opt k (st\<lparr>pq := rest\<rparr>) = Inr (Some r)"
              by (simp add: unfold hp')
            from "1.IH"(3) [OF False hp fresh notend more None this Irest step] show ?thesis .
          next
            case (Some obj)
            with res False fresh notend more
            obtain st2 where ex: "explore sc rc opt cur (connections obj) (st\<lparr>pq := rest\<rparr>) = Inr st2"
              and rec: "dijkstra_loop sc rc end_stop opt k st2 = Inr (Some r)"
              by (auto simp: unfold hp' split: sum.splits)
            have "\<forall>it \<in> set (pq st2). I it"
            proof (rule explore_inv [OF ex Irest])
              fix c and it :: qitem
              assume "c \<in> set (connections obj)" "q_stop it = to_stop_id c"
                "q_path it = q_path cur @ [to_stop_id c]" "to_stop_id c \<notin> set (q_path cur)"
              with Icur Some step show "I it" by blast
            qed
            from "1.IH"(4) [OF False hp fresh notend more Some ex rec this step] show ?thesis .
          qed
        qed
      qed
    qed
  qed
qed

lemma relax_no_error:
  assumes "map_of sc (q_stop cur) \<noteq> None" and "map_of sc (to_stop_id c) \<noteq> None"
  shows "\<exists>st'. relax sc rc opt cur c st = Inr st'"
  using assms by (auto simp: relax_def Let_def)

lemma explore_no_error:
  assumes "map_of sc (q_stop cur) \<noteq> None" and "\<forall>c \<in> set cs. map_of sc (to_stop_id c) \<noteq> None"
  shows "\<exists>st'. explore sc rc opt cur cs st = Inr st'"
  using assms
proof (induction cs arbitrary: st)
  case Nil
  then show ?case by simp
next
  case (Cons c cs)
  obtain st1 where "relax sc rc opt cur c st = Inr st1"
    using relax_no_error [of sc cur c rc opt st] Cons.prems by auto
  then show ?case using Cons.IH [of st1] Cons.prems by simp
qed

lemma closed_graph_connections:
  assumes "closed_graph sc" and "map_of sc k = Some obj"
  shows "\<forall>c \<in> set (connections obj). map_of sc (to_stop_id c) \<noteq> None"
proof -
  from assms(2) have "(k, obj) \<in> set sc" by (rule map_of_SomeD)
  with assms(1) show ?thesis unfolding closed_graph_def by force
qed

lemma dijkstra_loop_no_error:
  assumes "closed_graph sc"
  shows "dijkstra_loop sc rc end_stop opt k st \<noteq> Inl e"
  using assms
proof (induction sc rc end_stop opt k st rule: dijkstra_loop.induct)
  case (1 sc rc end_stop opt k st)
  note unfold = dijkstra_loop.simps [of sc rc end_stop opt k st]
  show ?case
  proof (cases "pq st = []")
    case True
    then show ?thesis by (simp add: unfold)
  next
    case False
    obtain cur rest where hp': "heappop (pq st) = (cur, rest)"
      by (cases "heappop (pq st)") simp
    note hp = hp' [symmetric]
    show ?thesis
    proof (cases "stale st cur")
      case True
      from "1.IH"(1) [OF False hp True "1.prems"] True False show ?thesis
        by (simp add: unfold hp')
    next
      case fresh: False
      show ?thesis
      proof (cases "q_stop cur = end_stop")
        case True
        with False fresh show ?thesis by (simp add: unfold hp')
      next
        case notend: False
        show ?thesis
        proof (cases "k \<le> q_transfers cur")
          case True
          from "1.IH"(2) [OF False hp fresh notend True "1.prems"] True False fresh notend
          show ?thesis by (simp add: unfold hp')
        next
          case more: False
          show ?thesis
          proof (cases "map_of sc (q_stop cur)")
            case None
            from "1.IH"(3) [OF False hp fresh notend more None "1.prems"] None False fresh notend more
            show ?thesis by (simp add: unfold hp')
          next
            case (Some obj)
            obtain st2 where ex: "explore sc rc opt cur (connections obj) (st\<lparr>pq := rest\<rparr>) = Inr st2"
              using explore_no_error [of sc cur "connections obj" rc opt "st\<lparr>pq := rest\<rparr>"]
                closed_graph_connections [OF "1.prems" Some] Some by auto
            from "1.IH"(4) [OF False hp fresh notend more Some ex "1.prems"] ex Some False fresh notend more
            show ?thesis by (simp add: unfold hp')
          qed
        qed
      qed
    qed
  qed
qed

lemma dijkstra_pathfinding_distinct:
  assumes "dijkstra_pathfinding sc rc start_stop end_stop opt k = Inr (Some r)"
  shows "distinct (path r)"
proof -
  have "\<exists>cur. distinct (q_path cur) \<and> q_stop cur = end_stop \<and> r = found_route cur"
    by (rule dijkstra_loop_found [OF assms [unfolded dijkstra_pathfinding_def]]) auto
  then show ?thesis by (auto simp: found_route_def)
qed

lemma dijkstra_pathfinding_reaches:
  assumes "dijkstra_pathfinding sc rc start_stop end_stop opt k = Inr (Some r)"
  shows "(start_stop, end_stop) \<in> (edges sc)\<^sup>*"
proof -
  have "\<exists>cur. (start_stop, q_stop cur) \<in> (edges sc)\<^sup>* \<and> q_stop cur = end_stop \<and> r = found_route cur"
  proof (rule dijkstra_loop_found [OF assms [unfolded dijkstra_pathfinding_def]])
    show "\<forall>it\<in>set (pq \<lparr>pq = [\<lparr>q_prio = 0, q_count = 0, q_stop = start_stop, q_path = [start_stop],
              q_segments = [], q_transfers = 0, q_time = 0, q_cost = 0\<rparr>],
            counter = 1, best_costs = [start_stop \<mapsto> 0]\<rparr>). (start_stop, q_stop it) \<in> (edges sc)\<^sup>*"
      by simp
  next
    show "\<forall>(cur :: qitem) obj c (it :: qitem).
            (start_stop, q_stop cur) \<in> (edges sc)\<^sup>* \<and> map_of sc (q_stop cur) = Some obj
            \<and> c \<in> set (connections obj) \<and> q_stop it = to_stop_id c
            \<and> q_path it = q_path cur @ [to_stop_id c] \<and> to_stop_id c \<notin> set (q_path cur)
            \<longrightarrow> (start_stop, q_stop it) \<in> (edges sc)\<^sup>*"
    proof (intro allI impI, elim conjE)
      fix cur it :: qitem and obj c
      assume a: "(start_stop, q_stop cur) \<in> (edges sc)\<^sup>*" "map_of sc (q_stop cur) = Some obj"
        "c \<in> set (connections obj)" "q_stop it = to_stop_id c"
      then have "(q_stop cur, q_stop it) \<in> edges sc"
        unfolding edges_def by auto
      with a(1) show "(start_stop, q_stop it) \<in> (edges sc)\<^sup>*" by auto
    qed
  qed
  then show ?thesis by auto
qed

lemma first_direct_edge:
  "first_direct end_stop cs = Some c \<Longrightarrow> c \<in> set cs \<and> to_stop_id c = end_stop"
  by (induction cs) (auto split: if_splits)

lemma no_path_outside:
  assumes "a \<in> A" and "b \<notin> A" and "\<forall>x \<in> A. \<forall>y. (x, y) \<in> edges sc \<longrightarrow> y \<in> A"
  shows "(a, b) \<notin> (edges sc)\<^sup>*"
proof
  assume "(a, b) \<in> (edges sc)\<^sup>*"
  then have "b \<in> A" using assms(1,3) by (induction rule: rtrancl_induct) auto
  with assms(2) show False by simp
qed

lemma test_stops_closed: "closed_graph test_stops"
  by (simp add: closed_graph_def test_stops_def)

lemma test_stops_no_path_S1_S5: "(''S1'', ''S5'') \<notin> (edges test_stops)\<^sup>*"
  by (rule no_path_outside [where A = "{''S1'', ''S2'', ''S3'', ''S4''}"])
     (auto simp: edges_def test_stops_def split: if_splits)

lemma test_stops_no_path_S5_S1: "(''S5'', ''S1'') \<notin> (edges test_stops)\<^sup>*"
  by (rule no_path_outside [where A = "{''S5''}"])
     (auto simp: edges_def test_stops_def split: if_splits)

lemma dangling_no_path: "(''S1'', ''S5'') \<notin> (edges dangling_stops)\<^sup>*"
  by (rule no_path_outside [where A = "{''S1'', ''X''}"])
     (auto simp: edges_def dangling_stops_def split: if_splits)

lemma test_search_found: "is_found (dijkstra_with_transfers test_stops test_routes empty_store ''S1'' ''S4'' ''time'')"
  by code_simp

lemma test_pathfinding_found: "is_found (dijkstra_pathfinding test_stops test_routes ''S1'' ''S4'' ''time'' 5)"
  by code_simp

lemma is_foundD: "is_found x \<Longrightarrow> \<exists>r. x = Inr (Some r)"
  by (auto simp: is_found_def split: sum.splits option.splits)

lemma nearest_loop_within:
  assumes "nearest_loop geo lat lon sc acc = Inr ds"
  shows "map (\<lambda>(d, k, n). (k, d)) ds = map (\<lambda>(d, k, n). (k, d)) acc @ within_walking geo lat lon sc"
  using assms
proof (induction sc arbitrary: acc)
  case Nil
  then show ?case by simp
next
  case (Cons kv sc)
  obtain k s where kv: "kv = (k, s)" by (cases kv)
  from Cons.prems kv obtain d where d: "stop_distance geo lat lon s = Inr d"
    and rec: "nearest_loop geo lat lon sc
                (if d \<le> MAX_WALKING_DISTANCE_KM then acc @ [(d, k, stop_name s)] else acc) = Inr ds"
    by (auto simp: stop_distance_def split: sum.splits)
  from Cons.IH [OF rec] d kv show ?case by (auto split: if_splits)
qed

lemma pair_of_triple_mono:
  fixes x y :: "real \<times> string \<times> string"
  assumes "x \<le> y"
  shows "(fst x, fst (snd x)) \<le> (fst y, fst (snd y))"
  using assms by (auto simp: less_eq_prod_def)

lemma sorted_pairs_of_triples:
  fixes xs :: "(real \<times> string \<times> string) list"
  assumes "sorted xs"
  shows "sorted (map (\<lambda>x. (fst x, fst (snd x))) xs)"
proof -
  have "sorted_wrt (\<le>) xs" using assms by simp
  then have "sorted_wrt (\<lambda>x y. (fst x, fst (snd x)) \<le> (fst y, fst (snd y))) xs"
    by (rule sorted_wrt_mono_rel [rotated]) (rule pair_of_triple_mono)
  then show ?thesis by (simp add: sorted_map)
qed

lemma sorted_take_le_drop:
  fixes xs :: "('a :: linorder) list"
  assumes "sorted xs" and "x \<in> set (take n xs)" and "y \<in> set (drop n xs)"
  shows "x \<le> y"
proof -
  have "sorted (take n xs @ drop n xs)" using assms(1) by simp
  then show ?thesis using assms(2,3) unfolding sorted_append by blast
qed

lemma find_nearest_stops_eq:
  assumes "find_nearest_stops geo sc lat lon limit = Inr res"
  obtains ds where "nearest_loop geo lat lon sc [] = Inr ds"
    and "res = map (\<lambda>(d, k, n). (k, d)) (py_take limit (sort ds))"
    and "map (\<lambda>(d, k, n). (k, d)) ds = within_walking geo lat lon sc"
proof -
  from assms obtain ds where ds: "nearest_loop geo lat lon sc [] = Inr ds"
    and res: "res = map (\<lambda>(d, k, n). (k, d)) (py_take limit (sort ds))"
    by (auto simp: find_nearest_stops_def split: sum.splits)
  from nearest_loop_within [OF ds] have "map (\<lambda>(d, k, n). (k, d)) ds = within_walking geo lat lon sc"
    by simp
  with ds res show ?thesis using that by blast
qed

lemma tie_nearest: "find_nearest_stops grid_geodesic tie_stops 0 0 2 = Inr [(''A'', 0), (''B'', 0)]"
  by code_simp

lemma starts_with_iff: "starts_with sub s \<longleftrightarrow> (\<exists>ss. s = sub @ ss)"
  by (induction sub s rule: starts_with.induct) auto

lemma py_in_iff: "py_in sub s \<longleftrightarrow> (\<exists>ps ss. s = ps @ sub @ ss)"
proof (induction s)
  case Nil
  then show ?case by auto
next
  case (Cons d ds)
  show ?case
  proof
    assume "py_in sub (d # ds)"
    then consider "starts_with sub (d # ds)" | "py_in sub ds" by auto
    then show "\<exists>ps ss. d # ds = ps @ sub @ ss"
    proof cases
      case 1
      then obtain ss where "d # ds = sub @ ss" by (auto simp: starts_with_iff)
      then have "d # ds = [] @ sub @ ss" by simp
      then show ?thesis by blast
    next
      case 2
      with Cons.IH obtain ps ss where "ds = ps @ sub @ ss" by blast
      then have "d # ds = (d # ps) @ sub @ ss" by simp
      then show ?thesis by blast
    qed
  next
    assume "\<exists>ps ss. d # ds = ps @ sub @ ss"
    then obtain ps ss where e: "d # ds = ps @ sub @ ss" by blast
    show "py_in sub (d # ds)"
    proof (cases ps)
      case Nil
      with e have "starts_with sub (d # ds)" by (auto simp: starts_with_iff)
      then show ?thesis by simp
    next
      case (Cons p ps')
      with e have "ds = ps' @ sub @ ss" by simp
      with Cons.IH have "py_in sub ds" by blast
      then show ?thesis by simp
    qed
  qed
qed

lemma enhance_route_segments:
  assumes "enhance_route geo gd round2 sc route start_lat start_lon end_lat end_lon = Inr r"
  shows "\<exists>segs. segments r = map enhance_segment segs"
  using assms by (auto simp: enhance_route_def Let_def split: sum.splits)

lemma walking_has_no_metro: "\<not> py_in ''METRO'' ''WALKING''"
  by simp

lemma enhance_segment_route_type:
  "route_id (enhance_segment seg) = route_id seg
   \<and> route_type (enhance_segment seg) =
       (if py_in ''METRO'' (route_id seg) then ''metro''
        else if route_id seg = ''WALKING'' then ''walking'' else ''bus'')"
  by (simp add: enhance_segment_def)

lemma typed_route_enhanced:
  "enhanced_types (enhance_route grid_geodesic plain_direction (\<lambda>x. x) chain_stops typed_route
                     (1 / 10) 0 0 0)
     = Some [(''WALKING'', ''walking''), (''T1'', ''bus''), (''PURPLE_LINE'', ''bus''),
             (''METRO_1'', ''metro'')]"
  by code_simp

lemma candidates_append:
  "candidates geo sc rc store a b c d opt (ps @ qs) =
     (case candidates geo sc rc store a b c d opt ps of
        Inl x \<Rightarrow> Inl x
      | Inr cs \<Rightarrow> (case candidates geo sc rc store a b c d opt qs of
                      Inl x \<Rightarrow> Inl x | Inr ds \<Rightarrow> Inr (cs @ ds)))"
  by (induction ps) (auto split: sum.splits option.splits)

lemma end_loop_candidates:
  assumes "end_loop geo sc rc store a b c d opt s es best = Inr best'"
  shows "\<exists>cs. candidates geo sc rc store a b c d opt (map (Pair s) es) = Inr cs
              \<and> best' = fold (keep_better opt) cs best"
  using assms
proof (induction es arbitrary: best)
  case Nil
  then show ?case by simp
next
  case (Cons e es)
  from Cons.prems obtain res where tp: "try_pair geo sc rc store a b c d opt s e = Inr res"
    by (auto split: sum.splits)
  define best1 where "best1 = (case res of None \<Rightarrow> best | Some r \<Rightarrow> keep_better opt r best)"
  from Cons.prems tp have "end_loop geo sc rc store a b c d opt s es best1 = Inr best'"
    by (auto simp: best1_def split: option.splits)
  from Cons.IH [OF this] obtain cs where
    cs: "candidates geo sc rc store a b c d opt (map (Pair s) es) = Inr cs"
    and f: "best' = fold (keep_better opt) cs best1" by blast
  have "candidates geo sc rc store a b c d opt (map (Pair s) (e # es))
          = Inr ((case res of None \<Rightarrow> [] | Some r \<Rightarrow> [r]) @ cs)"
    using tp cs by simp
  moreover have "best' = fold (keep_better opt) ((case res of None \<Rightarrow> [] | Some r \<Rightarrow> [r]) @ cs) best"
    using f by (simp add: best1_def split: option.splits)
  ultimately show ?case by blast
qed

lemma start_loop_candidates:
  assumes "start_loop geo sc rc store a b c d opt ss es best = Inr best'"
  shows "\<exists>cs. candidates geo sc rc store a b c d opt (List.product ss es) = Inr cs
              \<and> best' = fold (keep_better opt) cs best"
  using assms
proof (induction ss arbitrary: best)
  case Nil
  then show ?case by simp
next
  case (Cons s ss)
  from Cons.prems obtain b1 where e1: "end_loop geo sc rc store a b c d opt s es best = Inr b1"
    and r1: "start_loop geo sc rc store a b c d opt ss es b1 = Inr best'"
    by (auto split: sum.splits)
  from end_loop_candidates [OF e1] obtain cs1 where
    c1: "candidates geo sc rc store a b c d opt (map (Pair s) es) = Inr cs1"
    and f1: "b1 = fold (keep_better opt) cs1 best" by blast
  from Cons.IH [OF r1] obtain cs2 where
    c2: "candidates geo sc rc store a b c d opt (List.product ss es) = Inr cs2"
    and f2: "best' = fold (keep_better opt) cs2 b1" by blast
  have "candidates geo sc rc store a b c d opt (List.product (s # ss) es) = Inr (cs1 @ cs2)"
    using c1 c2 by (simp add: candidates_append)
  moreover have "best' = fold (keep_better opt) (cs1 @ cs2) best"
    using f1 f2 by simp
  ultimately show ?case by blast
qed

lemma xless_InfR: "xless a InfR \<longleftrightarrow> a \<noteq> InfR"
  by (cases a) simp_all

lemma xless_irrefl: "\<not> xless a a"
  by (cases a) simp_all

lemma xless_trans: "xless a b \<Longrightarrow> xless b c \<Longrightarrow> xless a c"
  by (cases a; cases b; cases c) simp_all

lemma xless_le_trans: "xless a b \<Longrightarrow> \<not> xless c b \<Longrightarrow> xless a c"
  by (cases a; cases b; cases c) simp_all

lemma fold_keep_better:
  "first_minimum (\<lambda>r. calculate_total_cost r opt) cs (fst (fold (keep_better opt) cs (None, InfR)))
   \<and> snd (fold (keep_better opt) cs (None, InfR))
       = (case fst (fold (keep_better opt) cs (None, InfR)) of
            None \<Rightarrow> InfR | Some b \<Rightarrow> calculate_total_cost b opt)"
proof (induction cs rule: rev_induct)
  case Nil
  then show ?case by (simp add: first_minimum_def)
next
  case (snoc x cs)
  let ?sc = "\<lambda>r. calculate_total_cost r opt"
  obtain b c where st: "fold (keep_better opt) cs (None, InfR) = (b, c)" by (metis surj_pair)
  from snoc st have fm: "first_minimum ?sc cs b"
    and c: "c = (case b of None \<Rightarrow> InfR | Some r \<Rightarrow> ?sc r)" by simp_all
  show ?case
  proof (cases "xless (?sc x) c")
    case True
    then have new: "fold (keep_better opt) (cs @ [x]) (None, InfR) = (Some x, ?sc x)"
      using st by (simp add: keep_better_def)
    have fin: "?sc x \<noteq> InfR" using True by (cases "?sc x") simp_all
    have low: "\<forall>j < length (cs @ [x]). \<not> xless (?sc ((cs @ [x]) ! j)) (?sc x)"
    proof (intro allI impI)
      fix j assume j: "j < length (cs @ [x])"
      show "\<not> xless (?sc ((cs @ [x]) ! j)) (?sc x)"
      proof (cases "j < length cs")
        case False
        with j have "(cs @ [x]) ! j = x" by (simp add: nth_append)
        then show ?thesis by (simp add: xless_irrefl)
      next
        case jl: True
        then have e: "(cs @ [x]) ! j = cs ! j" by (simp add: nth_append)
        have "\<not> xless (?sc (cs ! j)) c"
        proof (cases b)
          case None
          with fm jl have "?sc (cs ! j) = InfR" by (simp add: first_minimum_def)
          then show ?thesis by simp
        next
          case (Some r)
          with fm c jl show ?thesis by (auto simp: first_minimum_def)
        qed
        then show ?thesis unfolding e using True xless_trans by blast
      qed
    qed
    have before: "\<forall>j < length cs. xless (?sc x) (?sc ((cs @ [x]) ! j))"
    proof (intro allI impI)
      fix j assume jl: "j < length cs"
      then have e: "(cs @ [x]) ! j = cs ! j" by (simp add: nth_append)
      have "\<not> xless (?sc (cs ! j)) c"
      proof (cases b)
        case None
        with fm jl have "?sc (cs ! j) = InfR" by (simp add: first_minimum_def)
        then show ?thesis by simp
      next
        case (Some r)
        with fm c jl show ?thesis by (auto simp: first_minimum_def)
      qed
      with True show "xless (?sc x) (?sc ((cs @ [x]) ! j))"
        unfolding e by (rule xless_le_trans)
    qed
    have "first_minimum ?sc (cs @ [x]) (Some x)"
      unfolding first_minimum_def option.case
    proof (intro exI [of _ "length cs"] conjI)
      show "length cs < length (cs @ [x])" by simp
      show "(cs @ [x]) ! length cs = x" by simp
      show "?sc x \<noteq> InfR" by (rule fin)
      show "\<forall>j < length (cs @ [x]). \<not> xless (?sc ((cs @ [x]) ! j)) (?sc x)" by (rule low)
      show "\<forall>j < length cs. xless (?sc x) (?sc ((cs @ [x]) ! j))" by (rule before)
    qed
    with new show ?thesis by simp
  next
    case False
    then have same: "fold (keep_better opt) (cs @ [x]) (None, InfR) = (b, c)"
      using st by (simp add: keep_better_def)
    have "first_minimum ?sc (cs @ [x]) b"
    proof (cases b)
      case None
      with c False have "?sc x = InfR" by (simp add: xless_InfR)
      with fm None show ?thesis by (simp add: first_minimum_def)
    next
      case (Some r)
      with fm obtain i where i: "i < length cs" "cs ! i = r" "?sc r \<noteq> InfR"
        "\<forall>j < length cs. \<not> xless (?sc (cs ! j)) (?sc r)" "\<forall>j < i. xless (?sc r) (?sc (cs ! j))"
        by (auto simp: first_minimum_def)
      from Some c have cr: "c = ?sc r" by simp
      have "\<forall>j < length (cs @ [x]). \<not> xless (?sc ((cs @ [x]) ! j)) (?sc r)"
      proof (intro allI impI)
        fix j assume j: "j < length (cs @ [x])"
        show "\<not> xless (?sc ((cs @ [x]) ! j)) (?sc r)"
        proof (cases "j < length cs")
          case True
          with i(4) show ?thesis by (simp add: nth_append)
        next
          case nl: False
          with j have "(cs @ [x]) ! j = x" by (simp add: nth_append)
          with False cr show ?thesis by simp
        qed
      qed
      moreover have "\<forall>j < i. xless (?sc r) (?sc ((cs @ [x]) ! j))"
        using i(1,5) by (simp add: nth_append)
      moreover have "(cs @ [x]) ! i = r" using i(1,2) by (simp add: nth_append)
      moreover have "i < length (cs @ [x])" using i(1) by simp
      ultimately show ?thesis unfolding Some first_minimum_def option.case using i(3) by blast
    qed
    with same c show ?thesis by simp
  qed
qed

lemma within_walking_mem:
  assumes "(k, d) \<in> set (within_walking geo lat lon sc)"
  shows "\<exists>s. (k, s) \<in> set sc \<and> stop_distance geo lat lon s = Inr d \<and> d \<le> MAX_WALKING_DISTANCE_KM"
  using assms
proof (induction sc)
  case Nil
  then show ?case by simp
next
  case (Cons kv sc)
  obtain k' s' where kv: "kv = (k', s')" by (cases kv)
  show ?case
  proof (cases "(k, d) \<in> set (within_walking geo lat lon sc)")
    case True
    with Cons.IH show ?thesis by auto
  next
    case False
    with Cons.prems kv have "k = k' \<and> stop_distance geo lat lon s' = Inr d \<and> d \<le> MAX_WALKING_DISTANCE_KM"
      by (auto split: sum.splits if_splits)
    with kv show ?thesis by auto
  qed
qed

lemma py_take_subset: "set (py_take n xs) \<subseteq> set xs"
  by (auto simp: py_take_def dest: in_set_takeD)

lemma find_nearest_stops_mem:
  assumes "find_nearest_stops geo sc lat lon limit = Inr res" and "(k, d) \<in> set res"
  shows "(k, d) \<in> set (within_walking geo lat lon sc)"
proof -
  from assms(1) obtain ds where nl: "nearest_loop geo lat lon sc [] = Inr ds"
    and res: "res = map (\<lambda>(d, k, n). (k, d)) (py_take limit (sort ds))"
    and ww: "map (\<lambda>(d, k, n). (k, d)) ds = within_walking geo lat lon sc"
    by (rule find_nearest_stops_eq)
  from assms(2) res obtain t where t: "t \<in> set (py_take limit (sort ds))"
    and kd: "(k, d) = (\<lambda>(d, k, n). (k, d)) t" by auto
  from t py_take_subset [of limit "sort ds"] have "t \<in> set ds" by auto
  then have "(\<lambda>(d, k, n). (k, d)) t \<in> set (map (\<lambda>(d, k, n). (k, d)) ds)" by simp
  with kd ww show ?thesis by simp
qed

lemma find_nearest_stops_length:
  assumes "find_nearest_stops geo sc lat lon 3 = Inr res"
  shows "length res \<le> 3"
  using assms by (auto simp: find_nearest_stops_def py_take_def split: sum.splits)

lemma nearest_walking_time:
  assumes "distinct (map fst sc)" and "find_nearest_stops geo sc lat lon limit = Inr res"
    and "k \<in> set (map fst res)"
  shows "\<exists>m d. calculate_walking_time_from_coords geo sc lat lon k = Inr (Fin m, d)"
proof -
  from assms(3) obtain d where "(k, d) \<in> set res" by auto
  from find_nearest_stops_mem [OF assms(2) this] within_walking_mem
  obtain s where s: "(k, s) \<in> set sc" and sd: "stop_distance geo lat lon s = Inr d"
    and le: "d \<le> MAX_WALKING_DISTANCE_KM" by blast
  from assms(1) s have "map_of sc k = Some s" by simp
  with sd le show ?thesis
    by (simp add: calculate_walking_time_from_coords_def get_stop_coordinates_def tuple2_truthy_def
          stop_distance_def)
qed

lemma dijkstra_pathfinding_fields:
  assumes "dijkstra_pathfinding sc rc s e opt k = Inr (Some r)"
  shows "(\<exists>t. total_time r = Fin t) \<and> walking_time r = Fin 0 \<and> total_distance_km r = 0"
proof -
  have "\<exists>cur. True \<and> q_stop cur = e \<and> r = found_route cur"
    by (rule dijkstra_loop_found [OF assms [unfolded dijkstra_pathfinding_def]]) simp_all
  then show ?thesis by (auto simp: found_route_def)
qed

lemma search_fields:
  assumes "dijkstra_with_transfers sc rc store s e opt = Inr (Some r)"
  shows "(\<exists>t. total_time r = Fin t) \<and> walking_time r = Fin 0 \<and> total_distance_km r = 0"
proof -
  from assms obtain so eo where so: "map_of sc s = Some so" and eo: "map_of sc e = Some eo"
    by (auto simp: dijkstra_with_transfers_def split: option.splits)
  show ?thesis
  proof (cases "s = e")
    case True
    with assms so eo show ?thesis by (auto simp: dijkstra_with_transfers_def same_stop_route_def)
  next
    case ne: False
    show ?thesis
    proof (cases "first_direct e (connections so)")
      case (Some c)
      with assms so eo ne show ?thesis
        by (auto simp: dijkstra_with_transfers_def create_route_from_connection_def Let_def)
    next
      case None
      show ?thesis
      proof (cases "find_route_serving_both_stops sc rc store s e")
        case (Inl x)
        with assms so eo ne None show ?thesis by (simp add: dijkstra_with_transfers_def)
      next
        case (Inr m)
        show ?thesis
        proof (cases m)
          case none: None
          with assms so eo ne None Inr
          have "dijkstra_pathfinding sc rc s e opt 5 = Inr (Some r)"
            by (simp add: dijkstra_with_transfers_def)
          then show ?thesis by (rule dijkstra_pathfinding_fields)
        next
          case (Some r2)
          with assms so eo ne None Inr have "r = r2" by (simp add: dijkstra_with_transfers_def)
          moreover from Inr Some
          have "(\<exists>t. total_time r2 = Fin t) \<and> walking_time r2 = Fin 0 \<and> total_distance_km r2 = 0"
            by (auto simp: find_route_serving_both_stops_def create_route_from_data_def Let_def
                     split: list.splits option.splits sum.splits)
          ultimately show ?thesis by simp
        qed
      qed
    qed
  qed
qed

lemma candidates_mem:
  assumes "candidates geo sc rc store a b c d opt ps = Inr cs" and "x \<in> set cs"
  shows "\<exists>s e. (s, e) \<in> set ps \<and> try_pair geo sc rc store a b c d opt s e = Inr (Some x)"
  using assms
proof (induction ps arbitrary: cs)
  case Nil
  then show ?case by simp
next
  case (Cons p ps)
  obtain s e where p: "p = (s, e)" by (cases p)
  from Cons.prems(1) p obtain res cs' where tp: "try_pair geo sc rc store a b c d opt s e = Inr res"
    and rest: "candidates geo sc rc store a b c d opt ps = Inr cs'"
    and cs: "cs = (case res of None \<Rightarrow> [] | Some r \<Rightarrow> [r]) @ cs'"
    by (auto split: sum.splits)
  show ?case
  proof (cases "x \<in> set cs'")
    case True
    from Cons.IH [OF rest True] show ?thesis by auto
  next
    case False
    with Cons.prems(2) cs have "res = Some x" by (auto split: option.splits)
    with tp p show ?thesis by auto
  qed
qed

lemma product_Nil_right: "List.product xs [] = []"
  by (induction xs) simp_all

lemma length_product_le:
  assumes "length xs \<le> 3" and "length ys \<le> 3"
  shows "length (List.product xs ys) \<le> 9"
proof -
  have "length xs * length ys \<le> 3 * 3" using assms by (rule mult_le_mono)
  then show ?thesis by simp
qed

lemma candidate_fields:
  assumes dk: "distinct (map fst sc)"
    and n1: "find_nearest_stops geo sc lat1 lon1 3 = Inr ss"
    and n2: "find_nearest_stops geo sc lat2 lon2 3 = Inr es"
    and cs: "candidates geo sc rc store lat1 lon1 lat2 lon2 opt (List.product (map fst ss) (map fst es)) = Inr cs"
    and c: "c \<in> set cs"
  shows "\<exists>s e r sw sd ew ed.
           (s, e) \<in> set (List.product (map fst ss) (map fst es))
         \<and> dijkstra_with_transfers sc rc store s e opt = Inr (Some r)
         \<and> calculate_walking_time_from_coords geo sc lat1 lon1 s = Inr (Fin sw, sd)
         \<and> calculate_walking_time_from_coords geo sc lat2 lon2 e = Inr (Fin ew, ed)
         \<and> walking_time c = Fin (sw + ew)
         \<and> total_time c = xadd (total_time r) (Fin (sw + ew))
         \<and> total_distance_km c = total_distance_km r + (sd + ed)
         \<and> total_cost c = total_cost r \<and> transfers c = transfers r"
proof -
  from candidates_mem [OF cs c] obtain s e where
    mem: "(s, e) \<in> set (List.product (map fst ss) (map fst es))"
    and tp: "try_pair geo sc rc store lat1 lon1 lat2 lon2 opt s e = Inr (Some c)" by blast
  from mem have s: "s \<in> set (map fst ss)" and e: "e \<in> set (map fst es)" by auto
  from nearest_walking_time [OF dk n1 s] obtain sw sd where
    w1: "calculate_walking_time_from_coords geo sc lat1 lon1 s = Inr (Fin sw, sd)" by blast
  from nearest_walking_time [OF dk n2 e] obtain ew ed where
    w2: "calculate_walking_time_from_coords geo sc lat2 lon2 e = Inr (Fin ew, ed)" by blast
  from tp w1 w2 obtain r where r: "dijkstra_with_transfers sc rc store s e opt = Inr (Some r)"
    and cr: "c = add_walking r (Fin sw, sd) (Fin ew, ed)"
    by (auto simp: try_pair_def split: sum.splits option.splits)
  from search_fields [OF r] have z: "total_distance_km r = 0" by simp
  have "walking_time c = Fin (sw + ew)" "total_time c = xadd (total_time r) (Fin (sw + ew))"
    "total_distance_km c = total_distance_km r + (sd + ed)" "total_cost c = total_cost r"
    "transfers c = transfers r"
    unfolding cr using z by (simp_all add: add_walking_def Let_def)
  with mem r w1 w2 show ?thesis by blast
qed

lemma candidate_scalar_finite:
  assumes dk: "distinct (map fst sc)"
    and n1: "find_nearest_stops geo sc lat1 lon1 3 = Inr ss"
    and n2: "find_nearest_stops geo sc lat2 lon2 3 = Inr es"
    and cs: "candidates geo sc rc store lat1 lon1 lat2 lon2 opt (List.product (map fst ss) (map fst es)) = Inr cs"
    and c: "c \<in> set cs"
  shows "calculate_total_cost c opt \<noteq> InfR"
proof -
  from candidate_fields [OF dk n1 n2 cs c] obtain r sw ew s e where
    r: "dijkstra_with_transfers sc rc store s e opt = Inr (Some r)"
    and w: "walking_time c = Fin (sw + ew)" and t: "total_time c = xadd (total_time r) (Fin (sw + ew))"
    by blast
  from search_fields [OF r] obtain t0 where "total_time r = Fin t0" by blast
  with w t show ?thesis by (simp add: calculate_total_cost_def)
qed

lemma add_walking_eq:
  assumes "total_distance_km r = 0"
  shows "add_walking r (sw, sd) (ew, ed)
           = r\<lparr> walking_time := xadd sw ew,
                total_time := xadd (total_time r) (xadd sw ew),
                total_distance_km := total_distance_km r + (sd + ed) \<rparr>"
  using assms by (simp add: add_walking_def Let_def)

lemma try_pair_itinerary:
  assumes "try_pair geo sc rc store a b c d opt s e = Inr res"
  shows "res = pair_itinerary geo sc rc store a b c d opt (s, e)
         \<and> (\<exists>x. dijkstra_with_transfers sc rc store s e opt = Inr x)"
proof (cases "dijkstra_with_transfers sc rc store s e opt")
  case (Inl x)
  with assms show ?thesis by (simp add: try_pair_def)
next
  case (Inr m)
  show ?thesis
  proof (cases m)
    case None
    with Inr assms show ?thesis by (simp add: try_pair_def pair_itinerary_def)
  next
    case (Some r)
    with Inr have found: "dijkstra_with_transfers sc rc store s e opt = Inr (Some r)" by simp
    from search_fields [OF found] have z: "total_distance_km r = 0" by simp
    from assms found obtain sw sd ew ed where
      w1: "calculate_walking_time_from_coords geo sc a b s = Inr (sw, sd)"
      and w2: "calculate_walking_time_from_coords geo sc c d e = Inr (ew, ed)"
      and res: "res = Some (add_walking r (sw, sd) (ew, ed))"
      by (auto simp: try_pair_def split: sum.splits)
    from found w1 w2 res add_walking_eq [OF z, of sw sd ew ed] show ?thesis
      by (simp add: pair_itinerary_def)
  qed
qed

lemma candidates_pair_itineraries:
  assumes "candidates geo sc rc store a b c d opt ps = Inr cs"
  shows "cs = List.map_filter (pair_itinerary geo sc rc store a b c d opt) ps
         \<and> (\<forall>p \<in> set ps. \<exists>x. dijkstra_with_transfers sc rc store (fst p) (snd p) opt = Inr x)"
  using assms
proof (induction ps arbitrary: cs)
  case Nil
  then show ?case by (simp add: map_filter_simps)
next
  case (Cons p ps)
  obtain s e where p: "p = (s, e)" by (cases p)
  from Cons.prems p obtain res cs' where tp: "try_pair geo sc rc store a b c d opt s e = Inr res"
    and rest: "candidates geo sc rc store a b c d opt ps = Inr cs'"
    and cs: "cs = (case res of None \<Rightarrow> [] | Some r \<Rightarrow> [r]) @ cs'"
    by (auto split: sum.splits)
  from try_pair_itinerary [OF tp] have
    r1: "res = pair_itinerary geo sc rc store a b c d opt (s, e)"
    and r2: "\<exists>x. dijkstra_with_transfers sc rc store s e opt = Inr x" by simp_all
  from Cons.IH [OF rest] have
    i1: "cs' = List.map_filter (pair_itinerary geo sc rc store a b c d opt) ps"
    and i2: "\<forall>p \<in> set ps. \<exists>x. dijkstra_with_transfers sc rc store (fst p) (snd p) opt = Inr x"
    by simp_all
  have "cs = List.map_filter (pair_itinerary geo sc rc store a b c d opt) (p # ps)"
    unfolding cs i1 p r1 by (simp add: map_filter_simps split: option.splits)
  moreover have "\<forall>q \<in> set (p # ps). \<exists>x. dijkstra_with_transfers sc rc store (fst q) (snd q) opt = Inr x"
    using r2 i2 p by simp
  ultimately show ?case by simp
qed

lemma pair_itinerary_found:
  assumes dk: "distinct (map fst sc)"
    and n1: "find_nearest_stops geo sc lat1 lon1 3 = Inr ss"
    and n2: "find_nearest_stops geo sc lat2 lon2 3 = Inr es"
    and mem: "(s, e) \<in> set (List.product (map fst ss) (map fst es))"
    and r: "dijkstra_with_transfers sc rc store s e opt = Inr (Some r)"
  shows "\<exists>sw sd ew ed.
           calculate_walking_time_from_coords geo sc lat1 lon1 s = Inr (Fin sw, sd)
         \<and> calculate_walking_time_from_coords geo sc lat2 lon2 e = Inr (Fin ew, ed)
         \<and> pair_itinerary geo sc rc store lat1 lon1 lat2 lon2 opt (s, e)
             = Some (r\<lparr> walking_time := Fin (sw + ew),
                        total_time := xadd (total_time r) (Fin (sw + ew)),
                        total_distance_km := sd + ed \<rparr>)"
proof -
  from mem have s: "s \<in> set (map fst ss)" and e: "e \<in> set (map fst es)" by auto
  from nearest_walking_time [OF dk n1 s] obtain sw sd where
    w1: "calculate_walking_time_from_coords geo sc lat1 lon1 s = Inr (Fin sw, sd)" by blast
  from nearest_walking_time [OF dk n2 e] obtain ew ed where
    w2: "calculate_walking_time_from_coords geo sc lat2 lon2 e = Inr (Fin ew, ed)" by blast
  from search_fields [OF r] have z: "total_distance_km r = 0" by simp
  from r w1 w2 z have "pair_itinerary geo sc rc store lat1 lon1 lat2 lon2 opt (s, e)
             = Some (r\<lparr> walking_time := Fin (sw + ew),
                        total_time := xadd (total_time r) (Fin (sw + ew)),
                        total_distance_km := sd + ed \<rparr>)"
    by (simp add: pair_itinerary_def)
  with w1 w2 show ?thesis by blast
qed

lemma map_filter_mem:
  "y \<in> set (List.map_filter f xs) \<longleftrightarrow> (\<exists>x \<in> set xs. f x = Some y)"
  by (induction xs) (auto simp: map_filter_simps split: option.splits)

lemma map_filter_Nil:
  "List.map_filter f xs = [] \<longleftrightarrow> (\<forall>x \<in> set xs. f x = None)"
  by (induction xs) (auto simp: map_filter_simps split: option.splits)

lemma town_stops_distinct: "distinct (map fst town_stops)"
  by (simp add: town_stops_def at_stop_def)

lemma town_stops_nonempty: "town_stops \<noteq> []"
  by (simp add: town_stops_def)

lemma town_validate_start: "validate_coordinates grid_geodesic town_stops (1 / 10) 0 = Inr True"
  by code_simp

lemma town_validate_end: "validate_coordinates grid_geodesic town_stops 10 10 = Inr True"
  by code_simp

lemma town_nearest_start:
  "find_nearest_stops grid_geodesic town_stops (1 / 10) 0 3
     = Inr [(''P1'', 1 / 10), (''P2'', 1 / 5), (''P3'', 3 / 10)]"
  by code_simp

lemma town_nearest_end:
  "find_nearest_stops grid_geodesic town_stops 10 10 3 = Inr [(''Q1'', 0), (''Q2'', 3 / 10)]"
  by code_simp

lemma town_optimal_route:
  "route_view (find_optimal_route grid_geodesic town_stops [] empty_store (1 / 10) 0 10 10 ''time'')
     = Some ([''P2'', ''M'', ''Q1''], Fin 14, Fin 2, 1 / 5)"
  by code_simp

lemma town_itineraries:
  "map (\<lambda>c. (path c, total_time c, walking_time c, calculate_total_cost c ''time''))
     (List.map_filter (pair_itinerary grid_geodesic town_stops [] empty_store (1 / 10) 0 10 10 ''time'')
        (List.product [''P1'', ''P2'', ''P3''] [''Q1'', ''Q2'']))
   = [([''P1'', ''Q1''], Fin 23, Fin 1, FinR 24),
      ([''P1'', ''Q2''], Fin 13, Fin 4, FinR 17),
      ([''P2'', ''M'', ''Q1''], Fin 14, Fin 2, FinR 16),
      ([''P2'', ''M'', ''Q2''], Fin 11, Fin 5, FinR 16)]"
  by code_simp

lemma test_stops_unreadable_store:
  "dijkstra_with_transfers test_stops test_routes (Inl DatabaseError) ''S1'' ''S5'' ''time''
     = Inl DatabaseError
   \<and> find_route_by_stops test_stops test_routes (Inl DatabaseError) ''S1'' ''S5'' ''time''
     = Inl DatabaseError"
  by code_simp

section \<open>Claims\<close>

text \<open>
  C1, as stated, fails in two ways. In \<open>dangling_stops\<close> two cached stops have no path
  between them and the start stop has a connection to a stop that is not cached: the
  search raises KeyError at \<open>self.stops_cache[next_stop].name\<close>. In \<open>test_stops\<close>, where
  every connection leads to a cached stop, S1 and S5 have no path between them, and when
  the backing store cannot be read the query of \<open>_find_route_serving_both_stops\<close> raises:
  \<open>_dijkstra_with_transfers\<close> and \<open>find_route_by_stops\<close> end with that exception.
\<close>

theorem no_path_exception_counterexample:
  "map_of dangling_stops ''S1'' \<noteq> None \<and> map_of dangling_stops ''S5'' \<noteq> None
   \<and> (''S1'', ''S5'') \<notin> (edges dangling_stops)\<^sup>*
   \<and> dijkstra_with_transfers dangling_stops [] empty_store ''S1'' ''S5'' ''time'' = Inl KeyError
   \<and> closed_graph test_stops
   \<and> map_of test_stops ''S1'' \<noteq> None \<and> map_of test_stops ''S5'' \<noteq> None
   \<and> (''S1'', ''S5'') \<notin> (edges test_stops)\<^sup>*
   \<and> dijkstra_with_transfers test_stops test_routes (Inl DatabaseError) ''S1'' ''S5'' ''time''
        = Inl DatabaseError
   \<and> find_route_by_stops test_stops test_routes (Inl DatabaseError) ''S1'' ''S5'' ''time''
        = Inl DatabaseError"
proof -
  have "dijkstra_with_transfers dangling_stops [] empty_store ''S1'' ''S5'' ''time'' = Inl KeyError"
    by code_simp
  moreover have "map_of dangling_stops ''S1'' \<noteq> None" "map_of dangling_stops ''S5'' \<noteq> None"
    by (simp_all add: dangling_stops_def)
  moreover have "map_of test_stops ''S1'' \<noteq> None" "map_of test_stops ''S5'' \<noteq> None"
    by (simp_all add: test_stops_def)
  ultimately show ?thesis
    using dangling_no_path test_stops_closed test_stops_no_path_S1_S5 test_stops_unreadable_store
    by simp
qed

text \<open>
  C1, amended. In a graph store whose connections all lead to cached stops, and with a
  backing store that can be read (the read returns its documents), for every pair of
  cached stops with no path between them in the connection graph and no route document
  of the backing store holding both, \<open>_dijkstra_with_transfers\<close> and
  \<open>find_route_by_stops\<close> return None: no exception and no itinerary.
\<close>

theorem no_path_gives_none:
  assumes "closed_graph sc"
    and "map_of sc start_stop \<noteq> None" and "map_of sc end_stop \<noteq> None"
    and "(start_stop, end_stop) \<notin> (edges sc)\<^sup>*"
    and "store = Inr db"
    and "\<forall>d \<in> set (db_routes db). \<not> (start_stop \<in> set (doc_stops d) \<and> end_stop \<in> set (doc_stops d))"
  shows "dijkstra_with_transfers sc rc store start_stop end_stop opt = Inr None
         \<and> find_route_by_stops sc rc store start_stop end_stop opt = Inr None"
proof -
  from assms(2) obtain start_obj where so: "map_of sc start_stop = Some start_obj" by auto
  from assms(3) obtain end_obj where eo: "map_of sc end_stop = Some end_obj" by auto
  have ne: "start_stop \<noteq> end_stop" using assms(4) by auto
  have nd: "first_direct end_stop (connections start_obj) = None"
  proof (cases "first_direct end_stop (connections start_obj)")
    case (Some c)
    from first_direct_edge [OF Some] so have "(start_stop, end_stop) \<in> edges sc"
      unfolding edges_def by auto
    with assms(4) show ?thesis by auto
  qed simp
  have nr: "find_route_serving_both_stops sc rc store start_stop end_stop = Inr None"
  proof -
    have "filter (\<lambda>d. start_stop \<in> set (doc_stops d) \<and> end_stop \<in> set (doc_stops d)) (db_routes db) = []"
      using assms(6) by (simp add: filter_empty_conv)
    then show ?thesis using assms(5) by (simp add: find_route_serving_both_stops_def)
  qed
  have dj: "dijkstra_pathfinding sc rc start_stop end_stop opt 5 = Inr None"
  proof (cases "dijkstra_pathfinding sc rc start_stop end_stop opt 5")
    case (Inl e)
    with dijkstra_loop_no_error [OF assms(1)] show ?thesis
      unfolding dijkstra_pathfinding_def by blast
  next
    case (Inr res)
    show ?thesis
    proof (cases res)
      case None
      with Inr show ?thesis by simp
    next
      case (Some r)
      with Inr dijkstra_pathfinding_reaches [of sc rc start_stop end_stop opt 5 r] assms(4)
      show ?thesis by simp
    qed
  qed
  have main: "dijkstra_with_transfers sc rc store start_stop end_stop opt = Inr None"
    using so eo ne nd nr dj by (simp add: dijkstra_with_transfers_def)
  moreover have "sc \<noteq> []" using so by auto
  ultimately show ?thesis using so eo by (simp add: find_route_by_stops_def)
qed

theorem no_path_gives_none_witness:
  "closed_graph test_stops
   \<and> map_of test_stops ''S1'' \<noteq> None \<and> map_of test_stops ''S5'' \<noteq> None
   \<and> (''S1'', ''S5'') \<notin> (edges test_stops)\<^sup>* \<and> (''S5'', ''S1'') \<notin> (edges test_stops)\<^sup>*
   \<and> empty_store = Inr \<lparr> db_stops = [], db_routes = [] \<rparr>
   \<and> db_routes \<lparr> db_stops = [], db_routes = [] \<rparr> = []
   \<and> dijkstra_with_transfers test_stops test_routes empty_store ''S1'' ''S5'' ''time'' = Inr None
   \<and> dijkstra_with_transfers test_stops test_routes empty_store ''S5'' ''S1'' ''time'' = Inr None
   \<and> find_route_by_stops test_stops test_routes empty_store ''S1'' ''S5'' ''time'' = Inr None
   \<and> find_route_by_stops test_stops test_routes empty_store ''S5'' ''S1'' ''time'' = Inr None"
proof -
  have k1: "map_of test_stops ''S1'' \<noteq> None" and k5: "map_of test_stops ''S5'' \<noteq> None"
    by (simp_all add: test_stops_def)
  have nodb: "\<forall>d \<in> set (db_routes \<lparr> db_stops = [], db_routes = [] \<rparr>).
         \<not> (''S1'' \<in> set (doc_stops d) \<and> ''S5'' \<in> set (doc_stops d))"
       "\<forall>d \<in> set (db_routes \<lparr> db_stops = [], db_routes = [] \<rparr>).
         \<not> (''S5'' \<in> set (doc_stops d) \<and> ''S1'' \<in> set (doc_stops d))"
    by simp_all
  from no_path_gives_none [OF test_stops_closed k1 k5 test_stops_no_path_S1_S5 empty_store_def nodb(1)]
       no_path_gives_none [OF test_stops_closed k5 k1 test_stops_no_path_S5_S1 empty_store_def nodb(2)]
       test_stops_closed k1 k5 test_stops_no_path_S1_S5 test_stops_no_path_S5_S1 empty_store_def
  show ?thesis by simp
qed

text \<open>
  C2. For every stop A known to the graph store and every objective,
  \<open>find_route_by_stops(A, A, objective)\<close> returns the itinerary of the same-stop branch:
  its path is the single stop A, its segment list is empty, and its total time, total
  cost, transfer count and walking time are zero. The itinerary is the constant
  \<open>same_stop_route A\<close>, which reads no connection: no search is performed.
\<close>

theorem same_stop_itinerary:
  assumes "map_of sc a \<noteq> None"
  shows "\<exists>r. find_route_by_stops sc rc db a a opt = Inr (Some r) \<and> r = same_stop_route a
           \<and> path r = [a] \<and> segments r = [] \<and> total_time r = Fin 0 \<and> total_cost r = 0
           \<and> transfers r = 0 \<and> walking_time r = Fin 0"
proof -
  from assms have "sc \<noteq> []" by auto
  with assms show ?thesis
    by (auto simp: find_route_by_stops_def dijkstra_with_transfers_def same_stop_route_def)
qed

theorem same_stop_itinerary_witness:
  "map_of test_stops ''S1'' \<noteq> None \<and>
   (\<exists>r. find_route_by_stops test_stops test_routes empty_store ''S1'' ''S1'' ''cost''
           = Inr (Some r) \<and> r = same_stop_route ''S1''
         \<and> path r = [''S1''] \<and> segments r = [] \<and> total_time r = Fin 0 \<and> total_cost r = 0
         \<and> transfers r = 0 \<and> walking_time r = Fin 0)"
proof -
  have h: "map_of test_stops ''S1'' \<noteq> None" by (simp add: test_stops_def)
  from same_stop_itinerary [OF h] h show ?thesis by blast
qed

text \<open>
  C3 fails on the code. In \<open>label_stops\<close> the search for fewest transfers from A to C
  returns A, B, C with one transfer (key 109), while the walk A, X, B, C stays on route R2
  (no transfer, key 5): the entry for B reached over X is not pushed, because
  \<open>best_costs\<close> already holds the smaller priority of B reached over R1.
\<close>

theorem transfers_key_not_optimal:
  "route_key (dijkstra_pathfinding label_stops [] ''A'' ''C'' ''transfers'' 5)
     = Some ([''A'', ''B'', ''C''], 1, Fin 9)
   \<and> is_walk label_stops ''A'' [conn ''X'' ''R2'' 1, conn ''B'' ''R2'' 1, conn ''C'' ''R2'' 1]
   \<and> walk_stops ''A'' [conn ''X'' ''R2'' 1, conn ''B'' ''R2'' 1, conn ''C'' ''R2'' 1]
       = [''A'', ''X'', ''B'', ''C'']
   \<and> walk_totals [] None [conn ''X'' ''R2'' 1, conn ''B'' ''R2'' 1, conn ''C'' ''R2'' 1] (0, 0) = (0, 5)
   \<and> transfers_key [] [conn ''X'' ''R2'' 1, conn ''B'' ''R2'' 1, conn ''C'' ''R2'' 1] = 5
   \<and> transfers_key [] [conn ''B'' ''R1'' 1, conn ''C'' ''R2'' 1] = 109"
  by code_simp

text \<open>
  C4 fails on the code. On \<open>chain_stops\<close> the trace from N0 to N7 ends after 16 steps
  (below the cap of 100) with \<open>found_destination\<close> and the visited stops N0 ... N7, while
  \<open>_dijkstra_pathfinding\<close> with the same start, end and objective returns None: it prunes
  the entry for N6, which has five transfers, and the trace has no such prune.
\<close>

theorem trace_disagrees_with_search:
  "trace_summary (get_algorithm_execution_steps chain_stops [] ''N0'' ''N7'' ''time'')
     = Some (16, ''found_destination'',
             [''N0'', ''N1'', ''N2'', ''N3'', ''N4'', ''N5'', ''N6'', ''N7''], True)
   \<and> dijkstra_pathfinding chain_stops [] ''N0'' ''N7'' ''time'' 5 = Inr None"
  by code_simp

text \<open>
  C5. \<open>find_optimal_route\<close>, for points that pass \<open>validate_coordinates\<close> on a loaded cache
  with distinct keys, when it returns: it takes at most 3 nearest start stops and at most
  3 nearest end stops, so at most 9 pairs, and the search of every pair returns. The
  candidates \<open>cs\<close> are the itineraries of the pairs in iteration order
  (\<open>pair_itinerary\<close>): every pair whose search returns an itinerary contributes that
  itinerary with the walking minutes of both ends as its walking time and added to its
  total time, and the walking distances as its total distance (the search leaves it 0),
  and every candidate is of that form. The scalar of a candidate is its total time plus
  its walking time for time (the total of the search plus twice the walking minutes),
  the total fare for cost and the transfer count for transfers. The result is None
  exactly when there is no candidate, which is exactly when the search of every pair
  returns None; otherwise it is the first candidate whose scalar for the objective is
  least.
\<close>

theorem find_optimal_route_keeps_first_minimum:
  assumes dk: "distinct (map fst sc)" and ne: "sc \<noteq> []"
    and v1: "validate_coordinates geo sc lat1 lon1 = Inr True"
    and v2: "validate_coordinates geo sc lat2 lon2 = Inr True"
    and run: "find_optimal_route geo sc rc store lat1 lon1 lat2 lon2 opt = Inr res"
  shows "\<exists>ss es cs.
           find_nearest_stops geo sc lat1 lon1 3 = Inr ss
         \<and> find_nearest_stops geo sc lat2 lon2 3 = Inr es
         \<and> length ss \<le> 3 \<and> length es \<le> 3
         \<and> length (List.product (map fst ss) (map fst es)) \<le> 9
         \<and> (\<forall>p \<in> set (List.product (map fst ss) (map fst es)).
               \<exists>x. dijkstra_with_transfers sc rc store (fst p) (snd p) opt = Inr x)
         \<and> cs = List.map_filter (pair_itinerary geo sc rc store lat1 lon1 lat2 lon2 opt)
                  (List.product (map fst ss) (map fst es))
         \<and> (\<forall>s e r. (s, e) \<in> set (List.product (map fst ss) (map fst es))
                 \<and> dijkstra_with_transfers sc rc store s e opt = Inr (Some r) \<longrightarrow>
               (\<exists>sw sd ew ed.
                   calculate_walking_time_from_coords geo sc lat1 lon1 s = Inr (Fin sw, sd)
                 \<and> calculate_walking_time_from_coords geo sc lat2 lon2 e = Inr (Fin ew, ed)
                 \<and> r\<lparr> walking_time := Fin (sw + ew),
                      total_time := xadd (total_time r) (Fin (sw + ew)),
                      total_distance_km := sd + ed \<rparr> \<in> set cs))
         \<and> (\<forall>c \<in> set cs. \<exists>s e r t sw sd ew ed.
                 (s, e) \<in> set (List.product (map fst ss) (map fst es))
               \<and> dijkstra_with_transfers sc rc store s e opt = Inr (Some r)
               \<and> calculate_walking_time_from_coords geo sc lat1 lon1 s = Inr (Fin sw, sd)
               \<and> calculate_walking_time_from_coords geo sc lat2 lon2 e = Inr (Fin ew, ed)
               \<and> total_time r = Fin t \<and> total_distance_km r = 0
               \<and> c = r\<lparr> walking_time := Fin (sw + ew), total_time := Fin (t + (sw + ew)),
                        total_distance_km := sd + ed \<rparr>
               \<and> calculate_total_cost c ''time'' = xreal_of (xadd (total_time c) (walking_time c))
               \<and> calculate_total_cost c ''time'' = FinR (of_int (t + 2 * (sw + ew)))
               \<and> calculate_total_cost c ''cost'' = FinR (total_cost r)
               \<and> calculate_total_cost c ''transfers'' = FinR (of_int (transfers r)))
         \<and> (res = None \<longleftrightarrow> cs = [])
         \<and> (res = None \<longleftrightarrow>
               (\<forall>p \<in> set (List.product (map fst ss) (map fst es)).
                  dijkstra_with_transfers sc rc store (fst p) (snd p) opt = Inr None))
         \<and> (\<forall>b. res = Some b \<longrightarrow>
               (\<exists>i < length cs. cs ! i = b
                  \<and> (\<forall>j < length cs. \<not> xless (calculate_total_cost (cs ! j) opt) (calculate_total_cost b opt))
                  \<and> (\<forall>j < i. xless (calculate_total_cost b opt) (calculate_total_cost (cs ! j) opt))))"
proof -
  let ?sc = "\<lambda>r. calculate_total_cost r opt"
  let ?it = "pair_itinerary geo sc rc store lat1 lon1 lat2 lon2 opt"
  from run ne v1 v2 obtain ss es where n1: "find_nearest_stops geo sc lat1 lon1 3 = Inr ss"
    and n2: "find_nearest_stops geo sc lat2 lon2 3 = Inr es"
    by (auto simp: find_optimal_route_def split: sum.splits)
  let ?ps = "List.product (map fst ss) (map fst es)"
  have l1: "length ss \<le> 3" and l2: "length es \<le> 3"
    using n1 n2 by (auto dest: find_nearest_stops_length)
  have l9: "length ?ps \<le> 9"
    by (rule length_product_le) (simp_all add: l1 l2)
  have "\<exists>cs. candidates geo sc rc store lat1 lon1 lat2 lon2 opt ?ps = Inr cs
            \<and> first_minimum ?sc cs res"
  proof (cases "ss = [] \<or> es = []")
    case True
    then have "?ps = []" by (auto simp: product_Nil_right)
    moreover from run ne v1 v2 n1 n2 True have "res = None"
      by (auto simp: find_optimal_route_def)
    ultimately show ?thesis by (simp add: first_minimum_def)
  next
    case False
    with run ne v1 v2 n1 n2 obtain best where
      sl: "start_loop geo sc rc store lat1 lon1 lat2 lon2 opt (map fst ss) (map fst es)
             (None, InfR) = Inr best"
      and rb: "res = fst best"
      by (auto simp: find_optimal_route_def split: sum.splits)
    from start_loop_candidates [OF sl] obtain cs where
      cs: "candidates geo sc rc store lat1 lon1 lat2 lon2 opt ?ps = Inr cs"
      and f: "best = fold (keep_better opt) cs (None, InfR)" by blast
    from fold_keep_better [of opt cs] f rb have "first_minimum ?sc cs res" by simp
    with cs show ?thesis by blast
  qed
  then obtain cs where cs: "candidates geo sc rc store lat1 lon1 lat2 lon2 opt ?ps = Inr cs"
    and fm: "first_minimum ?sc cs res" by blast
  from candidates_pair_itineraries [OF cs] have
    eq: "cs = List.map_filter ?it ?ps"
    and tried: "\<forall>p \<in> set ?ps. \<exists>x. dijkstra_with_transfers sc rc store (fst p) (snd p) opt = Inr x"
    by simp_all
  have complete: "\<forall>s e r. (s, e) \<in> set ?ps
                 \<and> dijkstra_with_transfers sc rc store s e opt = Inr (Some r) \<longrightarrow>
               (\<exists>sw sd ew ed.
                   calculate_walking_time_from_coords geo sc lat1 lon1 s = Inr (Fin sw, sd)
                 \<and> calculate_walking_time_from_coords geo sc lat2 lon2 e = Inr (Fin ew, ed)
                 \<and> r\<lparr> walking_time := Fin (sw + ew),
                      total_time := xadd (total_time r) (Fin (sw + ew)),
                      total_distance_km := sd + ed \<rparr> \<in> set cs)"
  proof (intro allI impI)
    fix s e r
    assume h: "(s, e) \<in> set ?ps \<and> dijkstra_with_transfers sc rc store s e opt = Inr (Some r)"
    then have mem: "(s, e) \<in> set ?ps"
      and r: "dijkstra_with_transfers sc rc store s e opt = Inr (Some r)" by simp_all
    from pair_itinerary_found [OF dk n1 n2 mem r] obtain sw sd ew ed where
      w1: "calculate_walking_time_from_coords geo sc lat1 lon1 s = Inr (Fin sw, sd)"
      and w2: "calculate_walking_time_from_coords geo sc lat2 lon2 e = Inr (Fin ew, ed)"
      and it: "?it (s, e) = Some (r\<lparr> walking_time := Fin (sw + ew),
                        total_time := xadd (total_time r) (Fin (sw + ew)),
                        total_distance_km := sd + ed \<rparr>)" by blast
    from it mem have "r\<lparr> walking_time := Fin (sw + ew),
                        total_time := xadd (total_time r) (Fin (sw + ew)),
                        total_distance_km := sd + ed \<rparr> \<in> set cs"
      unfolding eq map_filter_mem by blast
    with w1 w2 show "\<exists>sw sd ew ed.
                   calculate_walking_time_from_coords geo sc lat1 lon1 s = Inr (Fin sw, sd)
                 \<and> calculate_walking_time_from_coords geo sc lat2 lon2 e = Inr (Fin ew, ed)
                 \<and> r\<lparr> walking_time := Fin (sw + ew),
                      total_time := xadd (total_time r) (Fin (sw + ew)),
                      total_distance_km := sd + ed \<rparr> \<in> set cs" by blast
  qed
  have sound: "\<forall>c \<in> set cs. \<exists>s e r t sw sd ew ed.
                 (s, e) \<in> set ?ps
               \<and> dijkstra_with_transfers sc rc store s e opt = Inr (Some r)
               \<and> calculate_walking_time_from_coords geo sc lat1 lon1 s = Inr (Fin sw, sd)
               \<and> calculate_walking_time_from_coords geo sc lat2 lon2 e = Inr (Fin ew, ed)
               \<and> total_time r = Fin t \<and> total_distance_km r = 0
               \<and> c = r\<lparr> walking_time := Fin (sw + ew), total_time := Fin (t + (sw + ew)),
                        total_distance_km := sd + ed \<rparr>
               \<and> calculate_total_cost c ''time'' = xreal_of (xadd (total_time c) (walking_time c))
               \<and> calculate_total_cost c ''time'' = FinR (of_int (t + 2 * (sw + ew)))
               \<and> calculate_total_cost c ''cost'' = FinR (total_cost r)
               \<and> calculate_total_cost c ''transfers'' = FinR (of_int (transfers r))"
  proof
    fix c assume "c \<in> set cs"
    then obtain p where pm: "p \<in> set ?ps" and pc: "?it p = Some c"
      unfolding eq map_filter_mem by blast
    obtain s e where p: "p = (s, e)" by (cases p)
    from pc p obtain r where r: "dijkstra_with_transfers sc rc store s e opt = Inr (Some r)"
      by (auto simp: pair_itinerary_def split: sum.splits option.splits)
    from search_fields [OF r] obtain t where t: "total_time r = Fin t"
      and z: "total_distance_km r = 0" by blast
    from pair_itinerary_found [OF dk n1 n2 pm [unfolded p] r] obtain sw sd ew ed where
      w1: "calculate_walking_time_from_coords geo sc lat1 lon1 s = Inr (Fin sw, sd)"
      and w2: "calculate_walking_time_from_coords geo sc lat2 lon2 e = Inr (Fin ew, ed)"
      and it: "?it (s, e) = Some (r\<lparr> walking_time := Fin (sw + ew),
                        total_time := xadd (total_time r) (Fin (sw + ew)),
                        total_distance_km := sd + ed \<rparr>)" by blast
    from it pc p t have c: "c = r\<lparr> walking_time := Fin (sw + ew), total_time := Fin (t + (sw + ew)),
                        total_distance_km := sd + ed \<rparr>" by simp
    have k1: "calculate_total_cost c ''time'' = xreal_of (xadd (total_time c) (walking_time c))"
      by (simp add: calculate_total_cost_def)
    have k2: "calculate_total_cost c ''time'' = FinR (of_int (t + 2 * (sw + ew)))"
      unfolding c by (simp add: calculate_total_cost_def)
    have k3: "calculate_total_cost c ''cost'' = FinR (total_cost r)"
      unfolding c by (simp add: calculate_total_cost_def)
    have k4: "calculate_total_cost c ''transfers'' = FinR (of_int (transfers r))"
      unfolding c by (simp add: calculate_total_cost_def)
    from pm p r w1 w2 t z c k1 k2 k3 k4
    show "\<exists>s e r t sw sd ew ed.
                 (s, e) \<in> set ?ps
               \<and> dijkstra_with_transfers sc rc store s e opt = Inr (Some r)
               \<and> calculate_walking_time_from_coords geo sc lat1 lon1 s = Inr (Fin sw, sd)
               \<and> calculate_walking_time_from_coords geo sc lat2 lon2 e = Inr (Fin ew, ed)
               \<and> total_time r = Fin t \<and> total_distance_km r = 0
               \<and> c = r\<lparr> walking_time := Fin (sw + ew), total_time := Fin (t + (sw + ew)),
                        total_distance_km := sd + ed \<rparr>
               \<and> calculate_total_cost c ''time'' = xreal_of (xadd (total_time c) (walking_time c))
               \<and> calculate_total_cost c ''time'' = FinR (of_int (t + 2 * (sw + ew)))
               \<and> calculate_total_cost c ''cost'' = FinR (total_cost r)
               \<and> calculate_total_cost c ''transfers'' = FinR (of_int (transfers r))"
      by blast
  qed
  have fin: "\<forall>c \<in> set cs. ?sc c \<noteq> InfR"
    using candidate_scalar_finite [OF dk n1 n2 cs] by blast
  have none: "res = None \<longleftrightarrow> cs = []"
  proof
    assume "res = None"
    with fm have "\<forall>y \<in> set cs. ?sc y = InfR" by (simp add: first_minimum_def)
    with fin show "cs = []" by (cases cs) auto
  next
    assume "cs = []"
    with fm show "res = None" by (cases res) (simp_all add: first_minimum_def)
  qed
  have empty: "cs = [] \<longleftrightarrow>
      (\<forall>p \<in> set ?ps. dijkstra_with_transfers sc rc store (fst p) (snd p) opt = Inr None)"
  proof
    assume e: "cs = []"
    show "\<forall>p \<in> set ?ps. dijkstra_with_transfers sc rc store (fst p) (snd p) opt = Inr None"
    proof
      fix p assume pm: "p \<in> set ?ps"
      with tried obtain x where x: "dijkstra_with_transfers sc rc store (fst p) (snd p) opt = Inr x"
        by blast
      show "dijkstra_with_transfers sc rc store (fst p) (snd p) opt = Inr None"
      proof (cases x)
        case None
        with x show ?thesis by simp
      next
        case (Some r)
        with x have r: "dijkstra_with_transfers sc rc store (fst p) (snd p) opt = Inr (Some r)" by simp
        from pm have "(fst p, snd p) \<in> set ?ps" by simp
        with complete r have "\<exists>y. y \<in> set cs" by blast
        with e show ?thesis by simp
      qed
    qed
  next
    assume a: "\<forall>p \<in> set ?ps. dijkstra_with_transfers sc rc store (fst p) (snd p) opt = Inr None"
    then have "\<forall>p \<in> set ?ps. ?it p = None" by (simp add: pair_itinerary_def)
    then show "cs = []" unfolding eq map_filter_Nil .
  qed
  have none2: "res = None \<longleftrightarrow>
      (\<forall>p \<in> set ?ps. dijkstra_with_transfers sc rc store (fst p) (snd p) opt = Inr None)"
    using none empty by simp
  have some: "\<forall>b. res = Some b \<longrightarrow>
               (\<exists>i < length cs. cs ! i = b
                  \<and> (\<forall>j < length cs. \<not> xless (?sc (cs ! j)) (?sc b))
                  \<and> (\<forall>j < i. xless (?sc b) (?sc (cs ! j))))"
    using fm by (auto simp: first_minimum_def)
  show ?thesis
    apply (rule exI [of _ ss], rule exI [of _ es], rule exI [of _ cs])
    apply (intro conjI)
    apply (rule n1)
    apply (rule n2)
    apply (rule l1)
    apply (rule l2)
    apply (rule l9)
    apply (rule tried)
    apply (rule eq)
    apply (rule complete)
    apply (rule sound)
    apply (rule none)
    apply (rule none2)
    apply (rule some)
    done
qed

theorem find_optimal_route_keeps_first_minimum_witness:
  "distinct (map fst town_stops) \<and> town_stops \<noteq> []
   \<and> validate_coordinates grid_geodesic town_stops (1 / 10) 0 = Inr True
   \<and> validate_coordinates grid_geodesic town_stops 10 10 = Inr True
   \<and> find_nearest_stops grid_geodesic town_stops (1 / 10) 0 3
       = Inr [(''P1'', 1 / 10), (''P2'', 1 / 5), (''P3'', 3 / 10)]
   \<and> find_nearest_stops grid_geodesic town_stops 10 10 3 = Inr [(''Q1'', 0), (''Q2'', 3 / 10)]
   \<and> map (\<lambda>c. (path c, total_time c, walking_time c, calculate_total_cost c ''time''))
       (List.map_filter (pair_itinerary grid_geodesic town_stops [] empty_store (1 / 10) 0 10 10 ''time'')
          (List.product [''P1'', ''P2'', ''P3''] [''Q1'', ''Q2'']))
     = [([''P1'', ''Q1''], Fin 23, Fin 1, FinR 24),
        ([''P1'', ''Q2''], Fin 13, Fin 4, FinR 17),
        ([''P2'', ''M'', ''Q1''], Fin 14, Fin 2, FinR 16),
        ([''P2'', ''M'', ''Q2''], Fin 11, Fin 5, FinR 16)]
   \<and> (\<exists>r0 cs.
         find_optimal_route grid_geodesic town_stops [] empty_store (1 / 10) 0 10 10 ''time''
           = Inr (Some r0)
       \<and> path r0 = [''P2'', ''M'', ''Q1''] \<and> total_time r0 = Fin 14 \<and> walking_time r0 = Fin 2
       \<and> total_distance_km r0 = 1 / 5
       \<and> cs = List.map_filter
                (pair_itinerary grid_geodesic town_stops [] empty_store (1 / 10) 0 10 10 ''time'')
                (List.product [''P1'', ''P2'', ''P3''] [''Q1'', ''Q2''])
       \<and> (\<exists>i < length cs. cs ! i = r0
             \<and> (\<forall>j < length cs. \<not> xless (calculate_total_cost (cs ! j) ''time'')
                                         (calculate_total_cost r0 ''time''))
             \<and> (\<forall>j < i. xless (calculate_total_cost r0 ''time'')
                               (calculate_total_cost (cs ! j) ''time''))))"
proof -
  obtain r0 where run: "find_optimal_route grid_geodesic town_stops [] empty_store
                          (1 / 10) 0 10 10 ''time'' = Inr (Some r0)"
    and p0: "path r0 = [''P2'', ''M'', ''Q1'']" "total_time r0 = Fin 14" "walking_time r0 = Fin 2"
            "total_distance_km r0 = 1 / 5"
    using town_optimal_route by (auto simp: route_view_def split: sum.splits option.splits)
  from find_optimal_route_keeps_first_minimum
         [OF town_stops_distinct town_stops_nonempty town_validate_start town_validate_end run]
  obtain ss es cs where
    s1: "find_nearest_stops grid_geodesic town_stops (1 / 10) 0 3 = Inr ss"
    and s2: "find_nearest_stops grid_geodesic town_stops 10 10 3 = Inr es"
    and cs: "cs = List.map_filter
                (pair_itinerary grid_geodesic town_stops [] empty_store (1 / 10) 0 10 10 ''time'')
                (List.product (map fst ss) (map fst es))"
    and best: "\<forall>b. Some r0 = Some b \<longrightarrow>
               (\<exists>i < length cs. cs ! i = b
                  \<and> (\<forall>j < length cs. \<not> xless (calculate_total_cost (cs ! j) ''time'') (calculate_total_cost b ''time''))
                  \<and> (\<forall>j < i. xless (calculate_total_cost b ''time'') (calculate_total_cost (cs ! j) ''time'')))"
    by blast
  from s1 s2 town_nearest_start town_nearest_end
  have ss: "map fst ss = [''P1'', ''P2'', ''P3'']" and es: "map fst es = [''Q1'', ''Q2'']"
    by auto
  from best have "\<exists>i < length cs. cs ! i = r0
         \<and> (\<forall>j < length cs. \<not> xless (calculate_total_cost (cs ! j) ''time'') (calculate_total_cost r0 ''time''))
         \<and> (\<forall>j < i. xless (calculate_total_cost r0 ''time'') (calculate_total_cost (cs ! j) ''time''))"
    by blast
  with cs [unfolded ss es] run p0 have
    "\<exists>r0 cs.
         find_optimal_route grid_geodesic town_stops [] empty_store (1 / 10) 0 10 10 ''time''
           = Inr (Some r0)
       \<and> path r0 = [''P2'', ''M'', ''Q1''] \<and> total_time r0 = Fin 14 \<and> walking_time r0 = Fin 2
       \<and> total_distance_km r0 = 1 / 5
       \<and> cs = List.map_filter
                (pair_itinerary grid_geodesic town_stops [] empty_store (1 / 10) 0 10 10 ''time'')
                (List.product [''P1'', ''P2'', ''P3''] [''Q1'', ''Q2''])
       \<and> (\<exists>i < length cs. cs ! i = r0
             \<and> (\<forall>j < length cs. \<not> xless (calculate_total_cost (cs ! j) ''time'')
                                         (calculate_total_cost r0 ''time''))
             \<and> (\<forall>j < i. xless (calculate_total_cost r0 ''time'')
                               (calculate_total_cost (cs ! j) ''time'')))"
    by blast
  with town_stops_distinct town_stops_nonempty town_validate_start town_validate_end
    town_nearest_start town_nearest_end town_itineraries
  show ?thesis by blast
qed

text \<open>
  C6 fails on the code for an unknown stop. \<open>get_stop_coordinates\<close> returns the pair
  \<open>(None, None)\<close>, which is true as a condition, so the branch that returns
  \<open>(float('inf'), 0.0)\<close> is never taken: the result is computed from whatever the
  library returns for the point \<open>(None, None)\<close>. With a library that reads a missing
  coordinate as 0.0, the query point (0, 0) gets 0 minutes for a stop that is not known.
\<close>

theorem unknown_stop_guard_never_taken:
  "calculate_walking_time_from_coords geo [] lat lon sid =
     (case geo (Some lat, Some lon) (None, None) of
        Inl e \<Rightarrow> Inl e
      | Inr d \<Rightarrow> if d > MAX_WALKING_DISTANCE_KM then Inr (PosInf, d)
                  else Inr (Fin (py_int ((d / WALKING_SPEED_KMH) * 60)), d))
   \<and> calculate_walking_time_from_coords grid_geodesic [] 0 0 ''X'' = Inr (Fin 0, 0)"
proof
  show "calculate_walking_time_from_coords geo [] lat lon sid =
     (case geo (Some lat, Some lon) (None, None) of
        Inl e \<Rightarrow> Inl e
      | Inr d \<Rightarrow> if d > MAX_WALKING_DISTANCE_KM then Inr (PosInf, d)
                  else Inr (Fin (py_int ((d / WALKING_SPEED_KMH) * 60)), d))"
    by (simp add: calculate_walking_time_from_coords_def get_stop_coordinates_def tuple2_truthy_def)
  show "calculate_walking_time_from_coords grid_geodesic [] 0 0 ''X'' = Inr (Fin 0, 0)"
    by (simp add: calculate_walking_time_from_coords_def get_stop_coordinates_def tuple2_truthy_def
          grid_geodesic_def coord_def MAX_WALKING_DISTANCE_KM_def py_int_def)
qed

text \<open>
  C7. Every itinerary the search returns has a path without a repeated stop: for
  \<open>_dijkstra_pathfinding\<close> with any bound, and for \<open>_dijkstra_with_transfers\<close> on a cache
  whose keys are the stop ids of its stops (the direct-connection shortcut builds its
  path from the \<open>stop_id\<close> fields).
\<close>

theorem search_path_acyclic:
  "(dijkstra_pathfinding sc rc start_stop end_stop opt k = Inr (Some r) \<longrightarrow> distinct (path r))
   \<and> (keys_consistent sc \<longrightarrow> dijkstra_with_transfers sc rc routes start_stop end_stop opt = Inr (Some r')
        \<longrightarrow> distinct (path r'))"
proof (intro conjI impI)
  assume "dijkstra_pathfinding sc rc start_stop end_stop opt k = Inr (Some r)"
  then show "distinct (path r)" by (rule dijkstra_pathfinding_distinct)
next
  assume kc: "keys_consistent sc"
    and res: "dijkstra_with_transfers sc rc routes start_stop end_stop opt = Inr (Some r')"
  from res obtain start_obj end_obj where so: "map_of sc start_stop = Some start_obj"
    and eo: "map_of sc end_stop = Some end_obj"
    by (auto simp: dijkstra_with_transfers_def split: option.splits)
  have ids: "stop_id start_obj = start_stop" "stop_id end_obj = end_stop"
    using kc map_of_SomeD [OF so] map_of_SomeD [OF eo] unfolding keys_consistent_def by force+
  show "distinct (path r')"
  proof (cases "start_stop = end_stop")
    case True
    with res so eo show ?thesis
      by (auto simp: dijkstra_with_transfers_def same_stop_route_def)
  next
    case ne: False
    show ?thesis
    proof (cases "first_direct end_stop (connections start_obj)")
      case (Some c)
      with res so eo ne ids show ?thesis
        by (auto simp: dijkstra_with_transfers_def create_route_from_connection_def Let_def)
    next
      case None
      show ?thesis
      proof (cases "find_route_serving_both_stops sc rc routes start_stop end_stop")
        case (Inl e)
        with res so eo ne None show ?thesis by (simp add: dijkstra_with_transfers_def)
      next
        case (Inr m)
        show ?thesis
        proof (cases m)
          case none: None
          with res so eo ne None Inr
          have "dijkstra_pathfinding sc rc start_stop end_stop opt 5 = Inr (Some r')"
            by (simp add: dijkstra_with_transfers_def)
          then show ?thesis by (rule dijkstra_pathfinding_distinct)
        next
          case (Some r2)
          with res so eo ne None Inr have "r' = r2" by (simp add: dijkstra_with_transfers_def)
          moreover from Inr Some ne have "path r2 = [start_stop, end_stop]"
            by (auto simp: find_route_serving_both_stops_def create_route_from_data_def Let_def
                     split: list.splits option.splits sum.splits)
          ultimately show ?thesis using ne by simp
        qed
      qed
    qed
  qed
qed

theorem search_path_acyclic_witness:
  "keys_consistent test_stops
   \<and> (\<exists>r. dijkstra_pathfinding test_stops test_routes ''S1'' ''S4'' ''time'' 5 = Inr (Some r) \<and> distinct (path r))
   \<and> (\<exists>r. dijkstra_with_transfers test_stops test_routes empty_store ''S1'' ''S4'' ''time'' = Inr (Some r)
          \<and> distinct (path r))"
proof -
  have kc: "keys_consistent test_stops" by (simp add: keys_consistent_def test_stops_def)
  obtain r1 where r1: "dijkstra_pathfinding test_stops test_routes ''S1'' ''S4'' ''time'' 5 = Inr (Some r1)"
    using is_foundD [OF test_pathfinding_found] by blast
  obtain r2 where r2: "dijkstra_with_transfers test_stops test_routes empty_store ''S1'' ''S4'' ''time'' = Inr (Some r2)"
    using is_foundD [OF test_search_found] by blast
  from search_path_acyclic [of test_stops test_routes "''S1''" "''S4''" "''time''" 5 r1 empty_store r2] kc r1 r2
  show ?thesis by blast
qed

text \<open>
  C8 fails on the code. In \<open>bound_stops\<close> the search for the fastest route from S to E
  with \<open>max_transfers = 1\<close> returns S, V, E; with \<open>max_transfers = 2\<close> it returns None: the
  entry for V reached over A and U is then pushed with a smaller priority, is popped at
  two transfers and pruned, and the entry for V reached directly is skipped as stale.
\<close>

theorem raised_bound_loses_route:
  "route_key (dijkstra_pathfinding bound_stops [] ''S'' ''E'' ''time'' 1)
     = Some ([''S'', ''V'', ''E''], 0, Fin 103)
   \<and> dijkstra_pathfinding bound_stops [] ''S'' ''E'' ''time'' 2 = Inr None"
  by code_simp

text \<open>
  C9, as stated, fails: the cache holds B before A, both at distance 0 from the query
  point. A sort that keeps the cache order on ties returns B first;
  \<open>find_nearest_stops\<close> returns A first, because \<open>distances.sort()\<close> compares the whole
  triples \<open>(distance, stop_id, name)\<close>.
\<close>

theorem nearest_stops_counterexample:
  "map fst tie_stops = [''B'', ''A'']
   \<and> within_walking grid_geodesic 0 0 tie_stops = [(''B'', 0), (''A'', 0)]
   \<and> find_nearest_stops_stable grid_geodesic tie_stops 0 0 2 = [(''B'', 0), (''A'', 0)]
   \<and> find_nearest_stops grid_geodesic tie_stops 0 0 2 = Inr [(''A'', 0), (''B'', 0)]"
  by code_simp

text \<open>
  C9, amended. For every query point and every limit that is not negative,
  \<open>find_nearest_stops\<close> returns \<open>(stop_id, distance)\<close> pairs of cached stops within the
  maximum walking distance, in ascending order of distance with equal distances in
  ascending order of stop id; it returns \<open>min limit n\<close> of the \<open>n\<close> such stops, every
  stop left out is no nearer (in that order) than any stop returned, and all \<open>n\<close> are
  returned when the limit allows.
\<close>

theorem nearest_stops_sorted_by_distance_then_id:
  assumes "find_nearest_stops geo sc lat lon limit = Inr res" and "0 \<le> limit"
  shows "sorted (map (\<lambda>(k, d). (d, k)) res)
         \<and> length res = min (nat limit) (length (within_walking geo lat lon sc))
         \<and> set res \<subseteq> set (within_walking geo lat lon sc)
         \<and> (\<forall>x \<in> set (within_walking geo lat lon sc) - set res. \<forall>y \<in> set res.
               (snd y, fst y) \<le> (snd x, fst x))
         \<and> (length (within_walking geo lat lon sc) \<le> nat limit
               \<longrightarrow> set res = set (within_walking geo lat lon sc))"
proof -
  from assms(1) obtain ds where ds: "nearest_loop geo lat lon sc [] = Inr ds"
    and res: "res = map (\<lambda>(d, k, n). (k, d)) (py_take limit (sort ds))"
    and ww: "map (\<lambda>(d, k, n). (k, d)) ds = within_walking geo lat lon sc"
    by (rule find_nearest_stops_eq)
  let ?n = "nat limit"
  let ?p = "\<lambda>(d :: real, k :: string, n :: string). (k, d)"
  have tk: "py_take limit (sort ds) = take ?n (sort ds)"
    using assms(2) by (simp add: py_take_def)
  have key: "map (\<lambda>(k, d). (d, k)) res = map (\<lambda>x. (fst x, fst (snd x))) (take ?n (sort ds))"
    unfolding res tk by (auto simp: case_prod_beta)
  have s1: "sorted (map (\<lambda>(k, d). (d, k)) res)"
    unfolding key by (intro sorted_pairs_of_triples sorted_wrt_take) simp
  have len: "length (within_walking geo lat lon sc) = length ds"
    using ww [symmetric] by simp
  have s2: "length res = min ?n (length (within_walking geo lat lon sc))"
    unfolding res tk len by (simp add: min.commute)
  have sets: "set (within_walking geo lat lon sc) = ?p ` set (sort ds)"
    using ww [symmetric] by simp
  have s3: "set res \<subseteq> set (within_walking geo lat lon sc)"
  proof
    fix y assume "y \<in> set res"
    then obtain ty where "ty \<in> set (take ?n (sort ds))" and "y = ?p ty"
      unfolding res tk by auto
    moreover then have "ty \<in> set (sort ds)" by (meson in_set_takeD)
    ultimately show "y \<in> set (within_walking geo lat lon sc)" unfolding sets by blast
  qed
  have s4: "\<forall>x \<in> set (within_walking geo lat lon sc) - set res. \<forall>y \<in> set res.
               (snd y, fst y) \<le> (snd x, fst x)"
  proof (intro ballI)
    fix x y
    assume x: "x \<in> set (within_walking geo lat lon sc) - set res" and y: "y \<in> set res"
    from y obtain ty where ty: "ty \<in> set (take ?n (sort ds))" and yy: "y = ?p ty"
      unfolding res tk by auto
    from x obtain tx where tx: "tx \<in> set (sort ds)" and xx: "x = ?p tx"
      unfolding sets by auto
    have "tx \<notin> set (take ?n (sort ds))"
      using x xx unfolding res tk by auto
    with tx have "tx \<in> set (drop ?n (sort ds))"
      by (metis Un_iff append_take_drop_id set_append)
    with ty have "ty \<le> tx" by (intro sorted_take_le_drop [of "sort ds" ty ?n tx]) simp_all
    from pair_of_triple_mono [OF this] show "(snd y, fst y) \<le> (snd x, fst x)"
      unfolding xx yy by (simp add: case_prod_beta)
  qed
  have s5: "length (within_walking geo lat lon sc) \<le> nat limit
               \<longrightarrow> set res = set (within_walking geo lat lon sc)"
    unfolding res tk sets len by auto
  from s1 s2 s3 s4 s5 show ?thesis by blast
qed

theorem nearest_stops_sorted_by_distance_then_id_witness:
  "find_nearest_stops grid_geodesic tie_stops 0 0 2 = Inr [(''A'', 0), (''B'', 0)]
   \<and> (0 :: int) \<le> 2
   \<and> sorted (map (\<lambda>(k, d). (d, k)) [(''A'', 0 :: real), (''B'', 0)])
   \<and> length [(''A'', 0 :: real), (''B'', 0)] = min (nat 2) (length (within_walking grid_geodesic 0 0 tie_stops))
   \<and> set [(''A'', 0 :: real), (''B'', 0)] \<subseteq> set (within_walking grid_geodesic 0 0 tie_stops)"
proof -
  have l: "(0 :: int) \<le> 2" by simp
  from nearest_stops_sorted_by_distance_then_id [OF tie_nearest l] tie_nearest l
  show ?thesis by blast
qed

text \<open>
  C10. In every itinerary that \<open>enhance_route\<close> returns, the route type of each segment
  follows from its route id alone: it is metro exactly when the id contains METRO,
  walking exactly when the id is WALKING, and bus exactly in every other case. A type
  taken from the routes cache (train, or metro on a line whose id lacks METRO) is
  overwritten.
\<close>

theorem enhanced_route_type_from_route_id:
  assumes "enhance_route geo gd round2 sc route start_lat start_lon end_lat end_lon = Inr r"
  shows "\<forall>seg \<in> set (segments r).
           (route_type seg = ''metro'' \<longleftrightarrow> (\<exists>ps ss. route_id seg = ps @ ''METRO'' @ ss))
         \<and> (route_type seg = ''walking'' \<longleftrightarrow> route_id seg = ''WALKING'')
         \<and> (route_type seg = ''bus'' \<longleftrightarrow>
               \<not> (\<exists>ps ss. route_id seg = ps @ ''METRO'' @ ss) \<and> route_id seg \<noteq> ''WALKING'')"
proof
  fix seg
  assume "seg \<in> set (segments r)"
  with enhance_route_segments [OF assms] obtain seg0 where seg: "seg = enhance_segment seg0"
    by auto
  define M where "M = py_in ''METRO'' (route_id seg)"
  define W where "W = (route_id seg = ''WALKING'')"
  have rid: "route_id seg = route_id seg0"
    unfolding seg using enhance_segment_route_type [of seg0] by simp
  have rt: "route_type seg = (if M then ''metro'' else if W then ''walking'' else ''bus'')"
    unfolding M_def W_def rid unfolding seg using enhance_segment_route_type [of seg0] by simp
  have nw: "W \<Longrightarrow> \<not> M"
    unfolding M_def W_def using walking_has_no_metro by simp
  have a: "route_type seg = ''metro'' \<longleftrightarrow> M"
    unfolding rt by simp
  have b: "route_type seg = ''walking'' \<longleftrightarrow> W"
    unfolding rt using nw by (cases M; cases W) simp_all
  have c: "route_type seg = ''bus'' \<longleftrightarrow> \<not> M \<and> \<not> W"
    unfolding rt by simp
  have m: "M \<longleftrightarrow> (\<exists>ps ss. route_id seg = ps @ ''METRO'' @ ss)"
    unfolding M_def by (rule py_in_iff)
  show "(route_type seg = ''metro'' \<longleftrightarrow> (\<exists>ps ss. route_id seg = ps @ ''METRO'' @ ss))
         \<and> (route_type seg = ''walking'' \<longleftrightarrow> route_id seg = ''WALKING'')
         \<and> (route_type seg = ''bus'' \<longleftrightarrow>
               \<not> (\<exists>ps ss. route_id seg = ps @ ''METRO'' @ ss) \<and> route_id seg \<noteq> ''WALKING'')"
    unfolding m [symmetric] W_def [symmetric] using a b c by blast
qed

theorem enhanced_route_type_from_route_id_witness:
  "\<exists>r. enhance_route grid_geodesic plain_direction (\<lambda>x. x) chain_stops typed_route (1 / 10) 0 0 0 = Inr r
       \<and> map (\<lambda>seg. (route_id seg, route_type seg)) (segments r)
           = [(''WALKING'', ''walking''), (''T1'', ''bus''), (''PURPLE_LINE'', ''bus''),
              (''METRO_1'', ''metro'')]
       \<and> list_all (\<lambda>seg. (route_type seg = ''metro'' \<longleftrightarrow> (\<exists>ps ss. route_id seg = ps @ ''METRO'' @ ss))
                          \<and> (route_type seg = ''walking'' \<longleftrightarrow> route_id seg = ''WALKING''))
           (segments r)"
proof -
  obtain r where r: "enhance_route grid_geodesic plain_direction (\<lambda>x. x) chain_stops typed_route
                       (1 / 10) 0 0 0 = Inr r"
    and m: "map (\<lambda>seg. (route_id seg, route_type seg)) (segments r)
           = [(''WALKING'', ''walking''), (''T1'', ''bus''), (''PURPLE_LINE'', ''bus''),
              (''METRO_1'', ''metro'')]"
    using typed_route_enhanced by (auto simp: enhanced_types_def split: sum.splits)
  from enhanced_route_type_from_route_id [OF r]
  have "list_all (\<lambda>seg. (route_type seg = ''metro'' \<longleftrightarrow> (\<exists>ps ss. route_id seg = ps @ ''METRO'' @ ss))
                          \<and> (route_type seg = ''walking'' \<longleftrightarrow> route_id seg = ''WALKING''))
           (segments r)"
    unfolding list_all_iff by blast
  with r m have "enhance_route grid_geodesic plain_direction (\<lambda>x. x) chain_stops typed_route (1 / 10) 0 0 0 = Inr r
       \<and> map (\<lambda>seg. (route_id seg, route_type seg)) (segments r)
           = [(''WALKING'', ''walking''), (''T1'', ''bus''), (''PURPLE_LINE'', ''bus''),
              (''METRO_1'', ''metro'')]
       \<and> list_all (\<lambda>seg. (route_type seg = ''metro'' \<longleftrightarrow> (\<exists>ps ss. route_id seg = ps @ ''METRO'' @ ss))
                          \<and> (route_type seg = ''walking'' \<longleftrightarrow> route_id seg = ''WALKING''))
           (segments r)"
    by (intro conjI)
  then show ?thesis by (rule exI)
qed

end
